theory Spec2Isabelle
  imports Complex_Main
begin

section \<open>Host primitives: strings and string lists\<close>

text \<open>
  The widget keeps no tag list of its own: every operation reads and writes the text of
  the line edit it extends. A \<open>QString\<close> is modelled as a \<open>string\<close>, a \<open>QChar\<close> as a
  \<open>char\<close> and a \<open>QStringList\<close> as a \<open>string list\<close>. The toolkit functions the source
  calls are written out here as the toolkit documents them.
\<close>

text \<open>\<open>QStringList::join(sep)\<close>: the entries with \<open>sep\<close> between neighbours.\<close>

fun join :: "string \<Rightarrow> string list \<Rightarrow> string" where
  "join sep [] = []"
| "join sep [x] = x"
| "join sep (x # y # ys) = x @ sep @ join sep (y # ys)"

text \<open>
  \<open>QString::split(sep)\<close> with the default \<open>Qt::KeepEmptyParts\<close>: a left-to-right scan
  that closes the current segment at every separator; the last segment is always
  emitted, so the result is never empty. \<open>cur\<close> is the segment being collected.
\<close>

fun split_from :: "char \<Rightarrow> string \<Rightarrow> string \<Rightarrow> string list" where
  "split_from sep cur [] = [cur]"
| "split_from sep cur (c # cs) =
     (if c = sep then cur # split_from sep [] cs else split_from sep (cur @ [c]) cs)"

definition qsplit :: "char \<Rightarrow> string \<Rightarrow> string list" where
  "qsplit sep s = split_from sep [] s"

text \<open>\<open>Qt::SkipEmptyParts\<close> drops the empty segments of the split.\<close>

definition skipEmptyParts :: "string list \<Rightarrow> string list" where
  "skipEmptyParts parts = filter (\<lambda>p. p \<noteq> []) parts"

text \<open>
  \<open>QString::lastIndexOf(c)\<close>: the index of the last occurrence, \<open>-1\<close> when there is
  none. The scan carries the current index and the last hit so far.
\<close>

fun lastIndexOf_from :: "char \<Rightarrow> nat \<Rightarrow> int \<Rightarrow> string \<Rightarrow> int" where
  "lastIndexOf_from c i found [] = found"
| "lastIndexOf_from c i found (x # xs) =
     lastIndexOf_from c (Suc i) (if x = c then int i else found) xs"

definition lastIndexOf :: "string \<Rightarrow> char \<Rightarrow> int" where
  "lastIndexOf s c = lastIndexOf_from c 0 (- 1) s"

text \<open>\<open>QString::indexOf(c)\<close>: the index of the first occurrence, \<open>-1\<close> when there is none.\<close>

fun indexOf_from :: "char \<Rightarrow> nat \<Rightarrow> string \<Rightarrow> int" where
  "indexOf_from c i [] = - 1"
| "indexOf_from c i (x # xs) = (if x = c then int i else indexOf_from c (Suc i) xs)"

definition indexOf :: "string \<Rightarrow> char \<Rightarrow> int" where
  "indexOf s c = indexOf_from c 0 s"

text \<open>\<open>QString::sliced(pos)\<close>: the text from position \<open>pos\<close> on.\<close>

definition sliced :: "string \<Rightarrow> int \<Rightarrow> string" where
  "sliced s pos = drop (nat pos) s"

text \<open>
  \<open>QString::truncate(pos)\<close>: keeps the first \<open>pos\<close> characters; a position past the
  end changes nothing and a negative one behaves as zero.
\<close>

definition qtruncate :: "string \<Rightarrow> int \<Rightarrow> string" where
  "qtruncate s pos = take (nat pos) s"

text \<open>
  \<open>std::unique\<close> with a binary predicate: every element is compared with the last
  element kept, and is dropped when the predicate holds.
\<close>

fun std_unique :: "('a \<Rightarrow> 'a \<Rightarrow> bool) \<Rightarrow> 'a list \<Rightarrow> 'a list" where
  "std_unique eq [] = []"
| "std_unique eq [x] = [x]"
| "std_unique eq (x # y # ys) =
     (if eq x y then std_unique eq (x # ys) else x # std_unique eq (y # ys))"

section \<open>The tag model\<close>

record property =
  p_name :: string
  p_values :: "string list"

text \<open>A \<open>QColor\<close> by its four channels, each read as an \<open>int\<close> between 0 and 255.\<close>

record color =
  red :: int
  green :: int
  blue :: int
  alpha :: int

definition rgb :: "int \<Rightarrow> int \<Rightarrow> int \<Rightarrow> color" where
  "rgb r g b = \<lparr>red = r, green = g, blue = b, alpha = 255\<rparr>"

record style =
  line_color :: color
  shade_color :: color
  property_color :: color

definition kDarkColor :: color where
  "kDarkColor = rgb 0 0 0"

definition kBrightColor :: color where
  "kBrightColor = rgb 245 245 245"

definition kLineColor :: color where
  "kLineColor = \<lparr>red = 37, green = 150, blue = 190, alpha = 255\<rparr>"

definition kShadeColor :: color where
  "kShadeColor = \<lparr>red = 37, green = 150, blue = 190, alpha = 127\<rparr>"

definition kPropertyColor :: color where
  "kPropertyColor = \<lparr>red = 37, green = 150, blue = 190, alpha = 90\<rparr>"

definition kSecondaryLineColor :: color where
  "kSecondaryLineColor = \<lparr>red = 190, green = 155, blue = 37, alpha = 255\<rparr>"

definition kSecondaryShadeColor :: color where
  "kSecondaryShadeColor = \<lparr>red = 190, green = 155, blue = 37, alpha = 127\<rparr>"

definition kSecondaryPropertyColor :: color where
  "kSecondaryPropertyColor = \<lparr>red = 190, green = 155, blue = 37, alpha = 90\<rparr>"

text \<open>
  The fields of \<open>QTagEdit::Impl\<close>, with the text of the inherited line edit (\<open>qtext\<close>,
  read by \<open>text()\<close> and written by \<open>setText\<close>). The completer is a toolkit object no
  function modelled here reads. A freshly constructed widget has an empty text, the
  default colours, no separator, no filter and \<open>unique_tags = true\<close>.
\<close>

record widget =
  qtext :: string
  primary :: style
  secondary :: style
  separator :: "char option"
  tag_filter :: "(string \<Rightarrow> bool) option"
  unique_tags :: bool

definition new_widget :: widget where
  "new_widget =
     \<lparr>qtext = [],
      primary = \<lparr>line_color = kLineColor, shade_color = kShadeColor,
                 property_color = kPropertyColor\<rparr>,
      secondary = \<lparr>line_color = kSecondaryLineColor, shade_color = kSecondaryShadeColor,
                   property_color = kSecondaryPropertyColor\<rparr>,
      separator = None,
      tag_filter = None,
      unique_tags = True\<rparr>"

text \<open>
  \<open>QLineEdit::setText\<close> replaces the text by the new text cut at \<open>maxLength\<close> characters.
  The limit is 32767 in a line edit and the widget never changes it. The toolkit does
  not run the validator on text that is set programmatically.
\<close>

definition maxLength :: nat where
  "maxLength = 32767"

definition setText :: "widget \<Rightarrow> string \<Rightarrow> widget" where
  "setText w s = w\<lparr>qtext := take maxLength s\<rparr>"

definition setPropertySeparator :: "widget \<Rightarrow> char \<Rightarrow> widget" where
  "setPropertySeparator w c = w\<lparr>separator := Some c\<rparr>"

definition setUniqueTags :: "widget \<Rightarrow> bool \<Rightarrow> widget" where
  "setUniqueTags w u = w\<lparr>unique_tags := u\<rparr>"

definition setTags :: "widget \<Rightarrow> string list \<Rightarrow> widget" where
  "setTags w tags = setText w (join '' '' tags)"

definition getTags :: "widget \<Rightarrow> string list" where
  "getTags w = skipEmptyParts (qsplit CHR '' '' (qtext w))"

definition addTag :: "widget \<Rightarrow> string \<Rightarrow> widget" where
  "addTag w tag =
     (if qtext w = [] then setText w tag else setText w (qtext w @ '' '' @ tag))"

definition removeLastTag :: "widget \<Rightarrow> widget" where
  "removeLastTag w =
     (let text = qtext w;
          index = lastIndexOf text CHR '' ''
      in if index \<ge> 0 then setText w (qtruncate text index) else setText w [])"

text \<open>
  The token both \<open>setProperties\<close> and \<open>addProperty\<close> build for one property: it starts
  as the name, and when a separator is set the loop over the values appends the
  separator and the value, one value after the other.
\<close>

definition property_tag :: "char option \<Rightarrow> property \<Rightarrow> string" where
  "property_tag sep p =
     (case sep of
        None \<Rightarrow> p_name p
      | Some c \<Rightarrow> fold (\<lambda>value tag. tag @ c # value) (p_values p) (p_name p))"

definition setProperties :: "widget \<Rightarrow> property list \<Rightarrow> widget" where
  "setProperties w properties =
     setTags w (fold (\<lambda>p tags. tags @ [property_tag (separator w) p]) properties [])"

definition addProperty :: "widget \<Rightarrow> property \<Rightarrow> widget" where
  "addProperty w p = setText w (qtext w @ '' '' @ property_tag (separator w) p)"

text \<open>
  One step of the loop of \<open>getProperties\<close> when a separator is set. \<open>tokens ! 0\<close> reads
  inside the list: \<open>qsplit\<close> never returns the empty list (lemma \<open>qsplit_not_Nil\<close>).
\<close>

definition tag_property :: "char \<Rightarrow> string \<Rightarrow> property" where
  "tag_property sep tag =
     (let tokens = qsplit sep tag
      in if length tokens > 1
         then \<lparr>p_name = tokens ! 0, p_values = drop 1 tokens\<rparr>
         else \<lparr>p_name = tokens ! 0, p_values = []\<rparr>)"

definition getProperties :: "widget \<Rightarrow> property list" where
  "getProperties w =
     fold (\<lambda>tag list.
             (case separator w of
                Some sep \<Rightarrow> list @ [tag_property sep tag]
              | None \<Rightarrow> list))
          (getTags w) []"

definition makeTagsUnique :: "widget \<Rightarrow> widget" where
  "makeTagsUnique w =
     (if \<not> unique_tags w then w
      else (case separator w of
              Some sep \<Rightarrow>
                setProperties w
                  (std_unique (\<lambda>a b. p_name a = p_name b) (getProperties w))
            | None \<Rightarrow> setTags w (std_unique (\<lambda>a b. a = b) (getTags w))))"

section \<open>Pen selection\<close>

text \<open>
  \<open>getPenForColor\<close> computes in \<open>double\<close>. The arithmetic of the platform is a parameter
  here: \<open>fl\<close> is the rounding applied to the exact result of every operation and to
  every decimal constant, so that \<open>fl (x * y)\<close> is the product the machine returns. The
  integer channel values and the integers 255 and 150 convert to \<open>double\<close> exactly.
  IEEE 754 double precision with rounding to nearest gives a relative error of at most
  \<open>2\<^sup>-\<^sup>5\<^sup>3\<close> for results of this size, which is the notion \<open>ieee_rounding\<close>; nothing
  else about \<open>fl\<close> is used.
\<close>

definition ieee_rounding :: "(real \<Rightarrow> real) \<Rightarrow> bool" where
  "ieee_rounding fl = (\<forall>x. \<bar>fl x - x\<bar> \<le> \<bar>x\<bar> / 2 ^ 53)"

text \<open>
  IEEE 754 double precision itself, for results inside its exponent range (the values of
  \<open>getPenForColor\<close> lie between \<open>2\<^sup>-\<^sup>4\<close> and \<open>2\<^sup>9\<close>): the result is scaled to a
  significand of 53 bits, which \<open>rne\<close> rounds to the nearest integer, a tie to the even
  one.
\<close>

definition rne :: "real \<Rightarrow> int" where
  "rne x =
     (let f = \<lfloor>x\<rfloor>
      in if x - of_int f < 1 / 2 then f
         else if x - of_int f > 1 / 2 then f + 1
         else if even f then f else f + 1)"

definition binary64 :: "real \<Rightarrow> real" where
  "binary64 x =
     (if x = 0 then 0
      else (let e = \<lfloor>log 2 \<bar>x\<bar>\<rfloor> - 52
            in of_int (rne (x / 2 powr of_int e)) * 2 powr of_int e))"

text \<open>A \<open>QPen\<close> by its colour and width; \<open>QPen(color)\<close> has width 1.\<close>

record pen =
  pen_color :: color
  pen_width :: int

definition QPen :: "color \<Rightarrow> pen" where
  "QPen c = \<lparr>pen_color = c, pen_width = 1\<rparr>"

definition QPen_width :: "color \<Rightarrow> int \<Rightarrow> pen" where
  "QPen_width c w = \<lparr>pen_color = c, pen_width = w\<rparr>"

definition kRgbBrightnessWeights :: "(real \<Rightarrow> real) \<Rightarrow> real list" where
  "kRgbBrightnessWeights fl = [fl (299 / 1000), fl (587 / 1000), fl (114 / 1000)]"

definition kDarkColorTreshold :: real where
  "kDarkColorTreshold = 150"

text \<open>The lambda \<open>scale_a\<close>: \<open>255 - color.alpha() / 255.0 * (255.0 - value)\<close>.\<close>

definition scale_a :: "(real \<Rightarrow> real) \<Rightarrow> color \<Rightarrow> int \<Rightarrow> real" where
  "scale_a fl c v =
     fl (255 - fl (fl (real_of_int (alpha c) / 255) * fl (255 - real_of_int v)))"

definition weighted_color :: "(real \<Rightarrow> real) \<Rightarrow> color \<Rightarrow> real" where
  "weighted_color fl c =
     fl (fl (fl (scale_a fl c (red c) * kRgbBrightnessWeights fl ! 0) +
             fl (scale_a fl c (green c) * kRgbBrightnessWeights fl ! 1)) +
         fl (scale_a fl c (blue c) * kRgbBrightnessWeights fl ! 2))"

definition getPenForColor :: "(real \<Rightarrow> real) \<Rightarrow> color \<Rightarrow> pen" where
  "getPenForColor fl c =
     (if weighted_color fl c > kDarkColorTreshold then QPen kDarkColor else QPen kBrightColor)"

section \<open>The renderer\<close>

text \<open>
  A \<open>QRect\<close> by its corner coordinates, as the toolkit stores it: a rectangle made from
  position and size has its right and bottom edge at \<open>x + w - 1\<close> and \<open>y + h - 1\<close>. The
  \<open>move\<close> functions keep the size. Coordinates are \<open>int\<close> in the source; they are
  unbounded integers here, so values are taken to stay in the range of \<open>int\<close>.
\<close>

record qrect =
  x1 :: int
  y1 :: int
  x2 :: int
  y2 :: int

record qmargins =
  m_left :: int
  m_top :: int
  m_right :: int
  m_bottom :: int

definition QRect :: "int \<Rightarrow> int \<Rightarrow> int \<Rightarrow> int \<Rightarrow> qrect" where
  "QRect x y w h = \<lparr>x1 = x, y1 = y, x2 = x + w - 1, y2 = y + h - 1\<rparr>"

definition QMargins :: "int \<Rightarrow> int \<Rightarrow> int \<Rightarrow> int \<Rightarrow> qmargins" where
  "QMargins l t r b = \<lparr>m_left = l, m_top = t, m_right = r, m_bottom = b\<rparr>"

definition left :: "qrect \<Rightarrow> int" where
  "left r = x1 r"

definition height :: "qrect \<Rightarrow> int" where
  "height r = y2 r - y1 r + 1"

definition moveLeft :: "qrect \<Rightarrow> int \<Rightarrow> qrect" where
  "moveLeft r pos = r\<lparr>x2 := x2 r + (pos - x1 r), x1 := pos\<rparr>"

definition moveBottom :: "qrect \<Rightarrow> int \<Rightarrow> qrect" where
  "moveBottom r pos = r\<lparr>y1 := y1 r + (pos - y2 r), y2 := pos\<rparr>"

definition marginsAdded :: "qrect \<Rightarrow> qmargins \<Rightarrow> qrect" where
  "marginsAdded r m =
     \<lparr>x1 = x1 r - m_left m, y1 = y1 r - m_top m, x2 = x2 r + m_right m, y2 = y2 r + m_bottom m\<rparr>"

definition bottomLeft :: "qrect \<Rightarrow> int \<times> int" where
  "bottomLeft r = (x1 r, y2 r)"

definition bottomRight :: "qrect \<Rightarrow> int \<times> int" where
  "bottomRight r = (x2 r, y2 r)"

definition kTopMargin :: int where "kTopMargin = 0"
definition kLeftMargin :: int where "kLeftMargin = 0"
definition kRightMargin :: int where "kRightMargin = 0"
definition kBottomMargin :: int where "kBottomMargin = 2"
definition kLineWidth :: int where "kLineWidth = 2"

definition kTagMargins :: qmargins where
  "kTagMargins = QMargins kLeftMargin kTopMargin kRightMargin kBottomMargin"

definition kTagMarginsWithProperty :: qmargins where
  "kTagMarginsWithProperty = QMargins kLeftMargin kTopMargin 0 kBottomMargin"

definition kPropertyMargins :: qmargins where
  "kPropertyMargins = QMargins 0 kTopMargin kRightMargin kBottomMargin"

text \<open>The toolkit's named colours \<open>gray\<close> and \<open>lightgray\<close>.\<close>

definition gray :: color where
  "gray = rgb 128 128 128"

definition lightgray :: color where
  "lightgray = rgb 211 211 211"

text \<open>
  What the renderer takes from the host: whether the widget is enabled, the text
  measurement of the current font (the advance width of a string and the line height),
  and the arithmetic \<open>fl\<close> of the platform.
\<close>

record host =
  isEnabled :: bool
  horizontalAdvance :: "string \<Rightarrow> int"
  fontHeight :: int
  double_rounding :: "real \<Rightarrow> real"

text \<open>The calls the renderer makes on the painter, in the order it makes them.\<close>

datatype paint =
  SetPen pen
| DrawText qrect string
| FillPath qrect color
| DrawLine "int \<times> int" "int \<times> int"

definition Filter :: "widget \<Rightarrow> string \<Rightarrow> bool" where
  "Filter w tag = (case tag_filter w of Some f \<Rightarrow> f tag | None \<Rightarrow> True)"

text \<open>
  The loop of \<open>renderTags\<close> over the tags; \<open>rect\<close> is the rectangle the loop moves to
  the right after every tag.
\<close>

fun renderTags_loop :: "host \<Rightarrow> widget \<Rightarrow> qrect \<Rightarrow> string list \<Rightarrow> paint list" where
  "renderTags_loop h w rect [] = []"
| "renderTags_loop h w rect (tag # tags) =
     (let pen = (if Filter w tag
                 then getPenForColor (double_rounding h) (property_color (primary w))
                 else getPenForColor (double_rounding h) (property_color (secondary w)));
          pen = (if \<not> isEnabled h then pen\<lparr>pen_color := gray\<rparr> else pen)
      in [SetPen pen, DrawText rect tag] @
         renderTags_loop h w
           (moveLeft rect (left rect + horizontalAdvance h (tag @ '' ''))) tags)"

definition renderTags :: "host \<Rightarrow> widget \<Rightarrow> qrect \<Rightarrow> paint list" where
  "renderTags h w rect = renderTags_loop h w rect (getTags w)"

text \<open>
  \<open>text_y\<close> is \<open>static_cast<int>(rect.height() / 2.0 + fontMetrics().height() / 2.0)\<close>:
  both halves and their sum are exact in \<open>double\<close>, and the cast cuts the fraction
  towards zero.
\<close>

definition text_y :: "host \<Rightarrow> qrect \<Rightarrow> int" where
  "text_y h rect =
     (let s = height rect + fontHeight h
      in if 0 \<le> s then s div 2 else - ((- s) div 2))"

definition text_rect :: "host \<Rightarrow> int \<Rightarrow> string \<Rightarrow> int \<Rightarrow> qmargins \<Rightarrow> qrect" where
  "text_rect h ty str offset margin =
     (let rect = QRect 0 0 (horizontalAdvance h str) (fontHeight h);
          rect = moveBottom rect ty;
          rect = moveLeft rect offset
      in marginsAdded rect margin)"

text \<open>
  The loop of \<open>renderTagBackgrounds\<close>. \<open>ty\<close> is \<open>text_y\<close>, computed once before the loop
  from the rectangle the function is called with.
\<close>

fun renderTagBackgrounds_loop ::
  "host \<Rightarrow> widget \<Rightarrow> int \<Rightarrow> bool \<Rightarrow> qrect \<Rightarrow> string list \<Rightarrow> paint list" where
  "renderTagBackgrounds_loop h w ty line_only rect [] = []"
| "renderTagBackgrounds_loop h w ty line_only rect (tag # tags) =
     (let style0 = (if Filter w tag then primary w else secondary w);
          first_sep = (case separator w of Some sep \<Rightarrow> indexOf tag sep | None \<Rightarrow> - 1);
          tag_only = (if first_sep \<ge> 0 then qtruncate tag first_sep else tag);
          style = (if first_sep \<ge> 0
                   then (if Filter w tag_only then primary w else secondary w)
                   else style0);
          property_only = (if first_sep \<ge> 0 then sliced tag first_sep else []);
          has_property = (property_only \<noteq> []);
          margin = (if has_property then kTagMarginsWithProperty else kTagMargins);
          fills =
            (if \<not> line_only \<and> isEnabled h
             then [FillPath (text_rect h ty tag (left rect) margin) (shade_color style)] @
                  (if has_property
                   then [FillPath
                           (text_rect h ty property_only
                              (left rect + horizontalAdvance h tag_only) kPropertyMargins)
                           (property_color style)]
                   else [])
             else []);
          line_rect = text_rect h ty tag (left rect) kTagMargins;
          line_pen = (if isEnabled h then QPen_width (line_color style) kLineWidth
                      else QPen_width lightgray kLineWidth)
      in fills @ [SetPen line_pen, DrawLine (bottomLeft line_rect) (bottomRight line_rect)] @
         renderTagBackgrounds_loop h w ty line_only
           (moveLeft rect (left rect + horizontalAdvance h (tag @ '' ''))) tags)"

definition renderTagBackgrounds :: "host \<Rightarrow> widget \<Rightarrow> qrect \<Rightarrow> bool \<Rightarrow> paint list" where
  "renderTagBackgrounds h w rect line_only =
     renderTagBackgrounds_loop h w (text_y h rect) line_only rect (getTags w)"

text \<open>
  Where the tags are drawn: the left edge of the rectangle of every \<open>drawText\<close> call, and
  the horizontal position of the start of every underline.
\<close>

fun text_offsets :: "paint list \<Rightarrow> int list" where
  "text_offsets [] = []"
| "text_offsets (DrawText r t # ps) = left r # text_offsets ps"
| "text_offsets (p # ps) = text_offsets ps"

fun line_offsets :: "paint list \<Rightarrow> int list" where
  "line_offsets [] = []"
| "line_offsets (DrawLine a b # ps) = fst a # line_offsets ps"
| "line_offsets (p # ps) = line_offsets ps"

text \<open>
  A font whose glyphs are all 7.4 pixels wide; the advance of a string is the sum of its
  glyph widths rounded to the nearest pixel.
\<close>

definition fractional_advance :: "string \<Rightarrow> int" where
  "fractional_advance s = (74 * int (length s) + 5) div 10"

section \<open>Reference notions the theorems are stated with\<close>

text \<open>
  Keeping the first entry of every run of neighbours with the same key: the first entry
  is kept, the rest of its run is skipped, and the scan goes on behind the run.
\<close>

function collapse_runs :: "('a \<Rightarrow> 'k) \<Rightarrow> 'a list \<Rightarrow> 'a list" where
  "collapse_runs key [] = []"
| "collapse_runs key (x # xs) = x # collapse_runs key (dropWhile (\<lambda>y. key y = key x) xs)"
  by pat_completeness auto
termination
  by (relation "measure (\<lambda>(key, xs). length xs)") (auto simp: length_dropWhile_le less_Suc_eq_le)

text \<open>
  The token of a property: its name followed by, for each value in order, the
  separator and the value.
\<close>

definition spec_token :: "char \<Rightarrow> property \<Rightarrow> string" where
  "spec_token sep p = p_name p @ concat (map (\<lambda>v. sep # v) (p_values p))"

text \<open>
  A text without leading, trailing or doubled spaces; the empty text is one.
\<close>

fun doubled_space :: "string \<Rightarrow> bool" where
  "doubled_space (a # b # cs) = ((a = CHR '' '' \<and> b = CHR '' '') \<or> doubled_space (b # cs))"
| "doubled_space _ = False"

definition single_spaced :: "string \<Rightarrow> bool" where
  "single_spaced s =
     (s = [] \<or> (hd s \<noteq> CHR '' '' \<and> last s \<noteq> CHR '' '' \<and> \<not> doubled_space s))"

text \<open>
  A string the operations take as a tag, a property name or a property value when they
  are used as intended: non-empty and without a space. A property is plain when its name
  and all its values are.
\<close>

definition plain :: "string \<Rightarrow> bool" where
  "plain t = (t \<noteq> [] \<and> CHR '' '' \<notin> set t)"

definition plain_property :: "property \<Rightarrow> bool" where
  "plain_property p = (plain (p_name p) \<and> list_all plain (p_values p))"

text \<open>
  The offsets a cursor passes through when it starts at \<open>x\<close> and moves on, after every
  tag, by the measured width of the tag followed by one space.
\<close>

fun advance_offsets :: "(string \<Rightarrow> int) \<Rightarrow> int \<Rightarrow> string list \<Rightarrow> int list" where
  "advance_offsets adv x [] = []"
| "advance_offsets adv x (t # ts) = x # advance_offsets adv (x + adv (t @ '' '')) ts"

text \<open>A host for the examples: enabled, the 7.4 pixel font, double precision.\<close>

definition example_host :: host where
  "example_host =
     \<lparr>isEnabled = True, horizontalAdvance = fractional_advance, fontHeight = 16,
      double_rounding = binary64\<rparr>"

text \<open>A font whose glyphs are all 7 pixels wide, and a host with it.\<close>

definition monospace_advance :: "string \<Rightarrow> int" where
  "monospace_advance s = 7 * int (length s)"

definition monospace_host :: host where
  "monospace_host =
     \<lparr>isEnabled = True, horizontalAdvance = monospace_advance, fontHeight = 16,
      double_rounding = binary64\<rparr>"

text \<open>A colour whose channels lie between 0 and 255, as every \<open>QColor\<close> has them.\<close>

definition valid_color :: "color \<Rightarrow> bool" where
  "valid_color c =
     (0 \<le> red c \<and> red c \<le> 255 \<and> 0 \<le> green c \<and> green c \<le> 255 \<and>
      0 \<le> blue c \<and> blue c \<le> 255 \<and> 0 \<le> alpha c \<and> alpha c \<le> 255)"

text \<open>
  The channel \<open>v\<close> blended towards white in proportion to \<open>(255 - alpha) / 255\<close>, and the
  blended channels combined with the weights 0.299, 0.587 and 0.114, in exact
  arithmetic. \<open>luma_numerator\<close> is the same value as a multiple of \<open>1 / 255000\<close>.
\<close>

definition blend_to_white :: "color \<Rightarrow> int \<Rightarrow> real" where
  "blend_to_white c v =
     real_of_int v + (255 - real_of_int v) * ((255 - real_of_int (alpha c)) / 255)"

definition luma :: "color \<Rightarrow> real" where
  "luma c =
     299 / 1000 * blend_to_white c (red c) + 587 / 1000 * blend_to_white c (green c) +
     114 / 1000 * blend_to_white c (blue c)"

definition luma_numerator :: "color \<Rightarrow> int" where
  "luma_numerator c =
     299 * (65025 - alpha c * (255 - red c)) + 587 * (65025 - alpha c * (255 - green c)) +
     114 * (65025 - alpha c * (255 - blue c))"

section \<open>Splitting and joining\<close>

lemma split_from_not_Nil: "split_from sep cur s \<noteq> []"
  by (induction s arbitrary: cur) auto

lemma qsplit_not_Nil: "qsplit sep s \<noteq> []"
  by (simp add: qsplit_def split_from_not_Nil)

lemma split_from_skip: "sep \<notin> set w \<Longrightarrow> split_from sep cur (w @ s) = split_from sep (cur @ w) s"
  by (induction w arbitrary: cur) auto

lemma split_from_whole: "sep \<notin> set w \<Longrightarrow> split_from sep cur w = [cur @ w]"
  using split_from_skip [of sep w cur "[]"] by simp

lemma split_from_unfold:
  "split_from sep cur s =
     (cur @ takeWhile (\<lambda>c. c \<noteq> sep) s) #
       (case dropWhile (\<lambda>c. c \<noteq> sep) s of [] \<Rightarrow> [] | _ # r \<Rightarrow> split_from sep [] r)"
proof (induction s arbitrary: cur)
  case Nil
  show ?case by simp
next
  case (Cons c cs)
  show ?case
  proof (cases "c = sep")
    case True
    then show ?thesis by simp
  next
    case False
    then show ?thesis using Cons.IH [of "cur @ [c]"] by simp
  qed
qed

lemma split_from_segments: "sep \<notin> set cur \<Longrightarrow> seg \<in> set (split_from sep cur s) \<Longrightarrow> sep \<notin> set seg"
proof (induction s arbitrary: cur)
  case Nil
  then show ?case by simp
next
  case (Cons c cs)
  show ?case
  proof (cases "c = sep")
    case True
    with Cons.prems have "seg = cur \<or> seg \<in> set (split_from sep [] cs)" by simp
    then show ?thesis using Cons.prems(1) Cons.IH [of "[]"] by auto
  next
    case False
    with Cons.prems have "seg \<in> set (split_from sep (cur @ [c]) cs)" by simp
    moreover have "sep \<notin> set (cur @ [c])" using False Cons.prems(1) by simp
    ultimately show ?thesis by (rule Cons.IH [rotated])
  qed
qed

lemma join_Cons: "join [c] (x # xs) = x @ concat (map ((#) c) xs)"
  by (induction xs arbitrary: x) auto

lemma concat_split_from:
  "cur @ s = hd (split_from sep cur s) @ concat (map ((#) sep) (tl (split_from sep cur s)))"
proof (induction s arbitrary: cur)
  case Nil
  show ?case by simp
next
  case (Cons c cs)
  show ?case
  proof (cases "c = sep")
    case True
    have "split_from sep [] cs \<noteq> []" by (rule split_from_not_Nil)
    then obtain h t where ht: "split_from sep [] cs = h # t" by (cases "split_from sep [] cs") auto
    with Cons.IH [of "[]"] True show ?thesis by simp
  next
    case False
    then show ?thesis using Cons.IH [of "cur @ [c]"] by simp
  qed
qed

lemma split_join_tags:
  "\<forall>t \<in> set ts. t \<noteq> [] \<and> CHR '' '' \<notin> set t \<Longrightarrow>
     skipEmptyParts (split_from CHR '' '' [] (join '' '' ts)) = ts"
proof (induction "'' ''" ts rule: join.induct)
  case 1
  show ?case by (simp add: skipEmptyParts_def)
next
  case (2 x)
  then show ?case by (simp add: skipEmptyParts_def split_from_whole)
next
  case (3 x y ys)
  then show ?case
    by (simp add: skipEmptyParts_def split_from_skip)
qed

lemma setText_fits: "length s \<le> maxLength \<Longrightarrow> setText w s = w\<lparr>qtext := s\<rparr>"
  by (simp add: setText_def)

lemma length_setText: "length (qtext (setText w s)) \<le> maxLength"
  by (simp add: setText_def)

lemma setTags_fits:
  "length (join '' '' ts) \<le> maxLength \<Longrightarrow> setTags w ts = w\<lparr>qtext := join '' '' ts\<rparr>"
  by (simp add: setTags_def setText_fits)

lemma getTags_setTags:
  "\<forall>t \<in> set ts. t \<noteq> [] \<and> CHR '' '' \<notin> set t \<Longrightarrow> length (join '' '' ts) \<le> maxLength \<Longrightarrow>
     getTags (setTags w ts) = ts"
  by (simp add: getTags_def setTags_fits qsplit_def split_join_tags)

text \<open>The joined text of a list of tags: every tag and one space less than tags.\<close>

lemma length_join:
  "length (join '' '' ts) = sum_list (map (\<lambda>t. Suc (length t)) ts) - 1"
  by (induction "'' ''" ts rule: join.induct) simp_all

lemma weight_split_from:
  "sum_list (map (\<lambda>t. Suc (length t)) (skipEmptyParts (split_from sep cur s)))
     \<le> Suc (length cur + length s)"
proof (induction s arbitrary: cur)
  case Nil
  show ?case by (simp add: skipEmptyParts_def)
next
  case (Cons c cs)
  show ?case
  proof (cases "c = sep")
    case True
    have "sum_list (map (\<lambda>t. Suc (length t)) (skipEmptyParts (split_from sep [] cs)))
        \<le> Suc (length ([] :: string) + length cs)"
      by (rule Cons.IH)
    with True show ?thesis by (simp add: skipEmptyParts_def)
  next
    case False
    with Cons.IH [of "cur @ [c]"] show ?thesis by simp
  qed
qed

lemma length_join_getTags: "length (join '' '' (getTags w)) \<le> length (qtext w)"
  using weight_split_from [of "CHR '' ''" "[]" "qtext w"]
  by (simp add: length_join getTags_def qsplit_def)

lemma getTags_tokens: "t \<in> set (getTags w) \<Longrightarrow> t \<noteq> [] \<and> CHR '' '' \<notin> set t"
  using split_from_segments [of "CHR '' ''" "[]" t "qtext w"]
  by (auto simp: getTags_def skipEmptyParts_def qsplit_def)

lemma doubled_space_Cons: "\<not> doubled_space (x # xs) \<Longrightarrow> \<not> doubled_space xs"
  by (cases xs) auto

lemma doubled_space_appendD: "\<not> doubled_space (xs @ ys) \<Longrightarrow> \<not> doubled_space ys"
  by (induction xs) (auto dest: doubled_space_Cons)

lemma doubled_space_space_hd:
  "\<not> doubled_space (xs @ CHR '' '' # ys) \<Longrightarrow> ys \<noteq> [] \<Longrightarrow> hd ys \<noteq> CHR '' ''"
proof -
  assume a: "\<not> doubled_space (xs @ CHR '' '' # ys)" and ne: "ys \<noteq> []"
  from a have "\<not> doubled_space (CHR '' '' # ys)" by (rule doubled_space_appendD)
  with ne show ?thesis by (cases ys) auto
qed

lemma join_Cons_nonempty: "ts \<noteq> [] \<Longrightarrow> join sep (t # ts) = t @ sep @ join sep ts"
  by (cases ts) auto

lemma join_split_single_spaced:
  "single_spaced (cur @ s) \<Longrightarrow>
     join '' '' (skipEmptyParts (split_from CHR '' '' cur s)) = cur @ s"
proof (induction s arbitrary: cur)
  case Nil
  then show ?case by (cases "cur = []") (simp_all add: skipEmptyParts_def)
next
  case (Cons c cs)
  show ?case
  proof (cases "c = CHR '' ''")
    case False
    then show ?thesis using Cons.IH [of "cur @ [c]"] Cons.prems by simp
  next
    case True
    from Cons.prems True have hd: "hd (cur @ CHR '' '' # cs) \<noteq> CHR '' ''"
      and last: "last (cur @ CHR '' '' # cs) \<noteq> CHR '' ''"
      and nd: "\<not> doubled_space (cur @ CHR '' '' # cs)"
      by (simp_all add: single_spaced_def)
    from hd have cur: "cur \<noteq> []" by (cases cur) auto
    from last have cs: "cs \<noteq> []" by (cases "cs = []") auto
    with last have last_cs: "last cs \<noteq> CHR '' ''" by simp
    from nd cs have hd_cs: "hd cs \<noteq> CHR '' ''" by (rule doubled_space_space_hd)
    from nd have "\<not> doubled_space (CHR '' '' # cs)" by (rule doubled_space_appendD)
    then have "\<not> doubled_space cs" by (rule doubled_space_Cons)
    with hd_cs last_cs have "single_spaced ([] @ cs)" by (simp add: single_spaced_def)
    then have ih: "join '' '' (skipEmptyParts (split_from CHR '' '' [] cs)) = [] @ cs"
      by (rule Cons.IH)
    with cs have ne: "skipEmptyParts (split_from CHR '' '' [] cs) \<noteq> []" by auto
    have "skipEmptyParts (split_from CHR '' '' cur (c # cs))
            = cur # skipEmptyParts (split_from CHR '' '' [] cs)"
      using True cur by (simp add: skipEmptyParts_def)
    then show ?thesis using ih ne True by (simp add: join_Cons_nonempty)
  qed
qed

lemma setTags_tokens_text:
  "single_spaced s \<Longrightarrow> length s \<le> maxLength \<Longrightarrow>
     qtext (setTags w (skipEmptyParts (qsplit CHR '' '' s))) = s"
proof -
  assume "single_spaced s" and l: "length s \<le> maxLength"
  then have "single_spaced ([] @ s)" by simp
  then have "join '' '' (skipEmptyParts (split_from CHR '' '' [] s)) = [] @ s"
    by (rule join_split_single_spaced)
  with l show ?thesis by (simp add: setTags_fits qsplit_def)
qed

section \<open>Adjacent duplicates\<close>

lemma std_unique_collapse: "std_unique (\<lambda>a b. key a = key b) xs = collapse_runs key xs"
  by (induction "\<lambda>a b. key a = key b" xs rule: std_unique.induct) auto

lemma collapse_runs_subset: "set (collapse_runs key xs) \<subseteq> set xs"
  by (induction key xs rule: collapse_runs.induct) (auto dest: set_dropWhileD)

lemma collapse_runs_map: "collapse_runs key (map f xs) = map f (collapse_runs (\<lambda>x. key (f x)) xs)"
  by (induction "\<lambda>x. key (f x)" xs rule: collapse_runs.induct) (auto simp: dropWhile_map comp_def)

lemma collapse_runs_remdups_adj: "collapse_runs (\<lambda>x. x) xs = remdups_adj xs"
  by (induction xs rule: remdups_adj.induct) auto

section \<open>Properties and their tokens\<close>

lemma fold_values: "fold (\<lambda>value tag. tag @ c # value) vs n = n @ concat (map ((#) c) vs)"
  by (induction vs arbitrary: n) auto

lemma fold_append_map: "fold (\<lambda>p tags. tags @ [f p]) ps acc = acc @ map f ps"
  by (induction ps arbitrary: acc) auto

lemma property_tag_Some: "property_tag (Some c) p = spec_token c p"
  by (simp add: property_tag_def spec_token_def fold_values)

lemma property_tag_None: "property_tag None p = p_name p"
  by (simp add: property_tag_def)

lemma tag_property_hd_tl:
  "tag_property sep tag = \<lparr>p_name = hd (qsplit sep tag), p_values = tl (qsplit sep tag)\<rparr>"
proof (cases "qsplit sep tag")
  case Nil
  then show ?thesis using qsplit_not_Nil [of sep tag] by simp
next
  case (Cons h t)
  then show ?thesis by (cases t) (simp_all add: tag_property_def)
qed

lemma tag_property_name: "p_name (tag_property sep tag) = takeWhile (\<lambda>c. c \<noteq> sep) tag"
  by (simp add: tag_property_hd_tl qsplit_def split_from_unfold [of sep "[]" tag])

lemma tag_property_token: "spec_token sep (tag_property sep tag) = tag"
  using concat_split_from [of "[]" tag sep]
  by (simp add: tag_property_hd_tl qsplit_def spec_token_def)

lemma tag_property_values: "v \<in> set (p_values (tag_property sep tag)) \<Longrightarrow> sep \<notin> set v"
proof -
  assume "v \<in> set (p_values (tag_property sep tag))"
  then have "v \<in> set (tl (split_from sep [] tag))"
    by (simp add: tag_property_hd_tl qsplit_def)
  then have "v \<in> set (split_from sep [] tag)"
    by (rule list.set_sel(2) [rotated]) (rule split_from_not_Nil)
  then show ?thesis using split_from_segments [of sep "[]" v tag] by simp
qed

lemma tag_property_no_sep: "sep \<notin> set tag \<Longrightarrow> p_values (tag_property sep tag) = []"
  by (simp add: tag_property_hd_tl qsplit_def split_from_whole)

lemma getProperties_None: "separator w = None \<Longrightarrow> getProperties w = []"
proof -
  assume "separator w = None"
  moreover have "fold (\<lambda>tag list. list) ts acc = acc" for ts :: "string list" and acc :: "property list"
    by (induction ts) auto
  ultimately show ?thesis by (simp add: getProperties_def)
qed

lemma getProperties_Some:
  "separator w = Some sep \<Longrightarrow> getProperties w = map (tag_property sep) (getTags w)"
  by (simp add: getProperties_def fold_append_map)

lemma setProperties_tags:
  "setProperties w ps = setTags w (map (property_tag (separator w)) ps)"
  by (simp add: setProperties_def fold_append_map)

lemma map_token_property: "map (property_tag (Some sep) \<circ> tag_property sep) ts = ts"
  by (induction ts) (simp_all add: property_tag_Some tag_property_token)

lemma separator_setTags: "separator (setTags w ts) = separator w"
  by (simp add: setTags_def setText_def)

section \<open>Removing the last tag\<close>

lemma lastIndexOf_from_absent: "c \<notin> set s \<Longrightarrow> lastIndexOf_from c i found s = found"
  by (induction s arbitrary: i found) auto

lemma lastIndexOf_from_last:
  "c \<notin> set suf \<Longrightarrow> lastIndexOf_from c i found (pre @ c # suf) = int (i + length pre)"
  by (induction pre arbitrary: i found) (auto simp: lastIndexOf_from_absent)

lemma removeLastTag_space:
  "CHR '' '' \<notin> set suf \<Longrightarrow> length pre \<le> maxLength \<Longrightarrow>
     removeLastTag (w\<lparr>qtext := pre @ CHR '' '' # suf\<rparr>) = w\<lparr>qtext := pre\<rparr>"
  by (simp add: removeLastTag_def lastIndexOf_def lastIndexOf_from_last Let_def setText_def
      qtruncate_def)

lemma removeLastTag_no_space:
  "CHR '' '' \<notin> set (qtext w) \<Longrightarrow> removeLastTag w = w\<lparr>qtext := []\<rparr>"
  by (simp add: removeLastTag_def lastIndexOf_def lastIndexOf_from_absent Let_def setText_def)

section \<open>The de-duplication pass\<close>

lemma makeTagsUnique_None:
  assumes "unique_tags w" "separator w = None"
  shows "makeTagsUnique w = setTags w (collapse_runs (\<lambda>tag. tag) (getTags w))"
  using assms by (simp add: makeTagsUnique_def std_unique_collapse)

lemma makeTagsUnique_Some:
  assumes "unique_tags w" "separator w = Some sep"
  shows "makeTagsUnique w =
           setTags w (collapse_runs (\<lambda>tag. p_name (tag_property sep tag)) (getTags w))"
  using assms
  by (simp add: makeTagsUnique_def std_unique_collapse setProperties_tags getProperties_Some
      collapse_runs_map map_token_property)

lemma weight_dropWhile:
  "sum_list (map (f :: 'a \<Rightarrow> nat) (dropWhile P xs)) \<le> sum_list (map f xs)"
  by (induction xs) auto

lemma weight_collapse_runs:
  "sum_list (map (f :: 'a \<Rightarrow> nat) (collapse_runs key xs)) \<le> sum_list (map f xs)"
proof (induction key xs rule: collapse_runs.induct)
  case (1 key)
  show ?case by simp
next
  case (2 key x xs)
  have "sum_list (map f (dropWhile (\<lambda>y. key y = key x) xs)) \<le> sum_list (map f xs)"
    by (rule weight_dropWhile)
  with 2 show ?case by simp
qed

lemma length_join_collapse:
  "length (join '' '' (collapse_runs key (getTags w))) \<le> length (qtext w)"
proof -
  have "length (join '' '' (collapse_runs key (getTags w))) \<le> length (join '' '' (getTags w))"
    unfolding length_join by (intro diff_le_mono weight_collapse_runs)
  also have "\<dots> \<le> length (qtext w)" by (rule length_join_getTags)
  finally show ?thesis .
qed

lemma getTags_setTags_collapse:
  assumes "length (qtext w) \<le> maxLength"
  shows "getTags (setTags w (collapse_runs key (getTags w))) = collapse_runs key (getTags w)"
proof (rule getTags_setTags)
  show "\<forall>t \<in> set (collapse_runs key (getTags w)). t \<noteq> [] \<and> CHR '' '' \<notin> set t"
  proof
    fix t assume "t \<in> set (collapse_runs key (getTags w))"
    then have "t \<in> set (getTags w)" by (rule subsetD [OF collapse_runs_subset])
    then show "t \<noteq> [] \<and> CHR '' '' \<notin> set t" by (rule getTags_tokens)
  qed
  show "length (join '' '' (collapse_runs key (getTags w))) \<le> maxLength"
    using length_join_collapse [of key w] assms by simp
qed

lemma abba_keys:
  "p_name (tag_property sep ''a'') \<noteq> p_name (tag_property sep ''b'')"
  by (auto simp: tag_property_name)

section \<open>The length of the text\<close>

text \<open>
  Every text the widget holds has at most \<open>maxLength\<close> characters: the text of a new
  widget is empty, and every operation writes through \<open>setText\<close>.
\<close>

lemma length_qtext_operations:
  "length (qtext new_widget) \<le> maxLength"
  "length (qtext (setTags w tags)) \<le> maxLength"
  "length (qtext (addTag w tag)) \<le> maxLength"
  "length (qtext (removeLastTag w)) \<le> maxLength"
  "length (qtext (setProperties w ps)) \<le> maxLength"
  "length (qtext (addProperty w p)) \<le> maxLength"
  "length (qtext w) \<le> maxLength \<Longrightarrow> length (qtext (makeTagsUnique w)) \<le> maxLength"
  by (simp_all add: new_widget_def setTags_def addTag_def removeLastTag_def setProperties_def
      addProperty_def makeTagsUnique_def length_setText Let_def split: option.splits)

section \<open>Reading properties\<close>

lemma getProperties_example:
  "getProperties (setTags (setPropertySeparator w CHR ''='') [''a=1=2'', ''b''])
     = [\<lparr>p_name = ''a'', p_values = [''1'', ''2'']\<rparr>, \<lparr>p_name = ''b'', p_values = []\<rparr>]"
  by (simp add: getProperties_def getTags_def setTags_def setText_def maxLength_def
      setPropertySeparator_def qsplit_def skipEmptyParts_def tag_property_def)

text \<open>
  C1. Without a separator \<open>getProperties\<close> returns the empty list, whatever the text
  holds. With separator \<open>sep\<close> it returns one property per tag of \<open>getTags\<close>, in the same
  order: the name is the part of the tag before the first separator, the tag is the name
  followed by separator and value for each value in order, no value contains the
  separator (so the values are exactly the remaining separator-delimited segments), and
  a tag without separator has no values. With separator \<open>=\<close> the tags \<open>a=1=2\<close> and \<open>b\<close>
  give \<open>{a, [1, 2]}\<close> and \<open>{b, []}\<close>.
\<close>

theorem getProperties_spec:
  "(separator w = None \<longrightarrow> getProperties w = []) \<and>
   (separator w = Some sep \<longrightarrow>
      length (getProperties w) = length (getTags w) \<and>
      (\<forall>i < length (getTags w).
         let tag = getTags w ! i; p = getProperties w ! i
         in p_name p = takeWhile (\<lambda>c. c \<noteq> sep) tag \<and>
            tag = p_name p @ concat (map (\<lambda>v. sep # v) (p_values p)) \<and>
            (\<forall>v \<in> set (p_values p). sep \<notin> set v) \<and>
            (sep \<notin> set tag \<longrightarrow> p_values p = []))) \<and>
   getProperties (setTags (setPropertySeparator w CHR ''='') [''a=1=2'', ''b''])
     = [\<lparr>p_name = ''a'', p_values = [''1'', ''2'']\<rparr>, \<lparr>p_name = ''b'', p_values = []\<rparr>]"
proof (intro conjI impI)
  assume "separator w = None"
  then show "getProperties w = []" by (rule getProperties_None)
next
  assume "separator w = Some sep"
  then show "length (getProperties w) = length (getTags w)"
    by (simp add: getProperties_Some)
next
  assume sep: "separator w = Some sep"
  show "\<forall>i < length (getTags w).
         let tag = getTags w ! i; p = getProperties w ! i
         in p_name p = takeWhile (\<lambda>c. c \<noteq> sep) tag \<and>
            tag = p_name p @ concat (map (\<lambda>v. sep # v) (p_values p)) \<and>
            (\<forall>v \<in> set (p_values p). sep \<notin> set v) \<and>
            (sep \<notin> set tag \<longrightarrow> p_values p = [])"
  proof (intro allI impI)
    fix i assume i: "i < length (getTags w)"
    have p: "getProperties w ! i = tag_property sep (getTags w ! i)"
      using sep i by (simp add: getProperties_Some)
    show "let tag = getTags w ! i; p = getProperties w ! i
         in p_name p = takeWhile (\<lambda>c. c \<noteq> sep) tag \<and>
            tag = p_name p @ concat (map (\<lambda>v. sep # v) (p_values p)) \<and>
            (\<forall>v \<in> set (p_values p). sep \<notin> set v) \<and>
            (sep \<notin> set tag \<longrightarrow> p_values p = [])"
      unfolding Let_def p
      using tag_property_token [of sep "getTags w ! i"]
        tag_property_values [of _ sep "getTags w ! i"]
      by (simp add: tag_property_name tag_property_no_sep spec_token_def)
  qed
next
  show "getProperties (setTags (setPropertySeparator w CHR ''='') [''a=1=2'', ''b''])
     = [\<lparr>p_name = ''a'', p_values = [''1'', ''2'']\<rparr>, \<lparr>p_name = ''b'', p_values = []\<rparr>]"
    by (rule getProperties_example)
qed

theorem getProperties_spec_witness:
  "separator (new_widget\<lparr>qtext := ''a=1=2 b''\<rparr>) = None \<and>
   getProperties (new_widget\<lparr>qtext := ''a=1=2 b''\<rparr>) = [] \<and>
   separator (new_widget\<lparr>qtext := ''a=1=2 b'', separator := Some CHR ''=''\<rparr>)
     = Some CHR ''='' \<and>
   getTags (new_widget\<lparr>qtext := ''a=1=2 b'', separator := Some CHR ''=''\<rparr>)
     = [''a=1=2'', ''b''] \<and>
   getProperties (new_widget\<lparr>qtext := ''a=1=2 b'', separator := Some CHR ''=''\<rparr>) ! 0
     = \<lparr>p_name = ''a'', p_values = [''1'', ''2'']\<rparr> \<and>
   ''a=1=2'' = ''a'' @ concat (map (\<lambda>v. CHR ''='' # v) [''1'', ''2''])"
proof -
  let ?n = "(new_widget\<lparr>qtext := ''a=1=2 b''\<rparr>)"
  let ?w = "(new_widget\<lparr>qtext := ''a=1=2 b'', separator := Some CHR ''=''\<rparr>)"
  have n: "separator ?n = None" by (simp add: new_widget_def)
  have s: "separator ?w = Some CHR ''=''" by simp
  have t: "getTags ?w = [''a=1=2'', ''b'']"
    by (simp add: getTags_def qsplit_def skipEmptyParts_def)
  have i: "0 < length (getTags ?w)" by (simp add: t)
  from getProperties_spec [of ?n] n have a: "getProperties ?n = []" by blast
  from getProperties_spec [of ?w "CHR ''=''"] s
  have "\<forall>i < length (getTags ?w).
         let tag = getTags ?w ! i; p = getProperties ?w ! i
         in p_name p = takeWhile (\<lambda>c. c \<noteq> CHR ''='') tag \<and>
            tag = p_name p @ concat (map (\<lambda>v. CHR ''='' # v) (p_values p)) \<and>
            (\<forall>v \<in> set (p_values p). CHR ''='' \<notin> set v) \<and>
            (CHR ''='' \<notin> set tag \<longrightarrow> p_values p = [])"
    by blast
  with i have "let tag = getTags ?w ! 0; p = getProperties ?w ! 0
         in p_name p = takeWhile (\<lambda>c. c \<noteq> CHR ''='') tag \<and>
            tag = p_name p @ concat (map (\<lambda>v. CHR ''='' # v) (p_values p)) \<and>
            (\<forall>v \<in> set (p_values p). CHR ''='' \<notin> set v) \<and>
            (CHR ''='' \<notin> set tag \<longrightarrow> p_values p = [])"
    by blast
  then have nm: "p_name (getProperties ?w ! 0) = ''a''"
    and tg: "''a=1=2'' = ''a'' @ concat (map (\<lambda>v. CHR ''='' # v) (p_values (getProperties ?w ! 0)))"
    by (simp_all add: t Let_def)
  have b: "getProperties ?w ! 0 = \<lparr>p_name = ''a'', p_values = [''1'', ''2'']\<rparr>"
    by (simp add: getProperties_def t tag_property_def qsplit_def)
  show ?thesis using n a s t b by simp
qed

section \<open>Writing properties\<close>

lemma maxLength_pos: "0 < maxLength"
  by (simp add: maxLength_def)

lemma take_maxLength_replicate: "maxLength \<le> n \<Longrightarrow> take maxLength (replicate n a) = replicate maxLength a"
  by (simp add: min_def)

lemma getTags_one_word:
  assumes "CHR '' '' \<notin> set s" "s \<noteq> []"
  shows "getTags (w\<lparr>qtext := s\<rparr>) = [s]"
  using assms by (simp add: getTags_def qsplit_def split_from_whole skipEmptyParts_def)

text \<open>One tag longer than the limit: the text is cut, and the tag read back is shorter.\<close>

lemma setTags_long_tag:
  assumes "a \<noteq> CHR '' ''" "maxLength \<le> n"
  shows "getTags (setTags w [replicate n a]) = [replicate maxLength a]"
proof -
  have "setTags w [replicate n a] = w\<lparr>qtext := replicate maxLength a\<rparr>"
    using assms(2) by (simp add: setTags_def setText_def take_maxLength_replicate)
  moreover have "CHR '' '' \<notin> set (replicate maxLength a)" using assms(1) by auto
  moreover have "replicate maxLength a \<noteq> []" using maxLength_pos by simp
  ultimately show ?thesis by (simp add: getTags_one_word)
qed

text \<open>
  C2, as the code has it. With separator \<open>sep\<close>, \<open>setProperties\<close> passes to \<open>setTags\<close> one
  token per property, the name followed by separator and value for each value in order,
  so the text becomes these tokens joined by single spaces and cut at the maximum length
  of the line edit. \<open>getTags\<close> then returns exactly these tokens when every token is
  non-empty and contains no space and the joined text is at most \<open>maxLength\<close> characters
  long; \<open>{x, [1, 2]}\<close> with separator \<open>=\<close> gives the one tag \<open>x=1=2\<close>.
\<close>

theorem setProperties_spec:
  "(separator w = Some sep \<longrightarrow>
      setProperties w ps = setTags w (map (spec_token sep) ps) \<and>
      qtext (setProperties w ps) = take maxLength (join '' '' (map (spec_token sep) ps)) \<and>
      ((\<forall>p \<in> set ps. spec_token sep p \<noteq> [] \<and> CHR '' '' \<notin> set (spec_token sep p)) \<and>
       length (join '' '' (map (spec_token sep) ps)) \<le> maxLength \<longrightarrow>
         getTags (setProperties w ps) = map (spec_token sep) ps)) \<and>
   getTags (setProperties (setPropertySeparator w CHR ''='')
              [\<lparr>p_name = ''x'', p_values = [''1'', ''2'']\<rparr>]) = [''x=1=2'']"
proof (intro conjI impI)
  assume sep: "separator w = Some sep"
  have m: "map (property_tag (Some sep)) ps = map (spec_token sep) ps"
    by (simp add: property_tag_Some)
  show eq: "setProperties w ps = setTags w (map (spec_token sep) ps)"
    unfolding setProperties_tags sep m by (rule refl)
  show "qtext (setProperties w ps) = take maxLength (join '' '' (map (spec_token sep) ps))"
    using eq by (simp add: setTags_def setText_def)
  assume a: "(\<forall>p \<in> set ps. spec_token sep p \<noteq> [] \<and> CHR '' '' \<notin> set (spec_token sep p)) \<and>
       length (join '' '' (map (spec_token sep) ps)) \<le> maxLength"
  then have "\<forall>t \<in> set (map (spec_token sep) ps). t \<noteq> [] \<and> CHR '' '' \<notin> set t" by simp
  moreover from a have "length (join '' '' (map (spec_token sep) ps)) \<le> maxLength" by simp
  ultimately have "getTags (setTags w (map (spec_token sep) ps)) = map (spec_token sep) ps"
    by (rule getTags_setTags)
  with eq show "getTags (setProperties w ps) = map (spec_token sep) ps" by simp
next
  show "getTags (setProperties (setPropertySeparator w CHR ''='')
              [\<lparr>p_name = ''x'', p_values = [''1'', ''2'']\<rparr>]) = [''x=1=2'']"
    by (simp add: setProperties_def setPropertySeparator_def property_tag_def setTags_def
        setText_def maxLength_def getTags_def qsplit_def skipEmptyParts_def)
qed

theorem setProperties_spec_witness:
  "separator (new_widget\<lparr>qtext := ''old'', separator := Some CHR ''=''\<rparr>)
     = Some CHR ''='' \<and>
   spec_token CHR ''='' \<lparr>p_name = ''x'', p_values = [''1'', ''2'']\<rparr> = ''x=1=2'' \<and>
   spec_token CHR ''='' \<lparr>p_name = ''y'', p_values = []\<rparr> = ''y'' \<and>
   length (join '' '' [''x=1=2'', ''y'']) \<le> maxLength \<and>
   qtext (setProperties (new_widget\<lparr>qtext := ''old'', separator := Some CHR ''=''\<rparr>)
            [\<lparr>p_name = ''x'', p_values = [''1'', ''2'']\<rparr>, \<lparr>p_name = ''y'', p_values = []\<rparr>])
     = ''x=1=2 y'' \<and>
   getTags (setProperties (new_widget\<lparr>qtext := ''old'', separator := Some CHR ''=''\<rparr>)
            [\<lparr>p_name = ''x'', p_values = [''1'', ''2'']\<rparr>, \<lparr>p_name = ''y'', p_values = []\<rparr>])
     = [''x=1=2'', ''y'']"
proof -
  let ?w = "(new_widget\<lparr>qtext := ''old'', separator := Some CHR ''=''\<rparr>)"
  let ?ps = "[\<lparr>p_name = ''x'', p_values = [''1'', ''2'']\<rparr>, \<lparr>p_name = ''y'', p_values = []\<rparr>]"
  have s: "separator ?w = Some CHR ''=''" by simp
  have x: "spec_token CHR ''='' \<lparr>p_name = ''x'', p_values = [''1'', ''2'']\<rparr> = ''x=1=2''"
    and y: "spec_token CHR ''='' \<lparr>p_name = ''y'', p_values = []\<rparr> = ''y''"
    by (simp_all add: spec_token_def)
  have len: "length (join '' '' [''x=1=2'', ''y'']) \<le> maxLength" by (simp add: maxLength_def)
  have ok: "(\<forall>p \<in> set ?ps. spec_token CHR ''='' p \<noteq> [] \<and> CHR '' '' \<notin> set (spec_token CHR ''='' p)) \<and>
      length (join '' '' (map (spec_token CHR ''='') ?ps)) \<le> maxLength"
    by (simp add: spec_token_def maxLength_def)
  from setProperties_spec [of ?w "CHR ''=''" ?ps] s
  have q: "qtext (setProperties ?w ?ps)
      = take maxLength (join '' '' (map (spec_token CHR ''='') ?ps))"
    and g: "(\<forall>p \<in> set ?ps. spec_token CHR ''='' p \<noteq> [] \<and> CHR '' '' \<notin> set (spec_token CHR ''='' p)) \<and>
            length (join '' '' (map (spec_token CHR ''='') ?ps)) \<le> maxLength
              \<longrightarrow> getTags (setProperties ?w ?ps) = map (spec_token CHR ''='') ?ps"
    by blast+
  from g ok have g': "getTags (setProperties ?w ?ps) = map (spec_token CHR ''='') ?ps"
    by (rule mp)
  have q': "qtext (setProperties ?w ?ps) = ''x=1=2 y''"
    unfolding q by (simp add: spec_token_def maxLength_def)
  have g'': "getTags (setProperties ?w ?ps) = [''x=1=2'', ''y'']"
    unfolding g' by (simp add: spec_token_def)
  from s x y len q' g'' show ?thesis by (intro conjI)
qed

text \<open>
  C2 as stated fails for a value that contains a space: the token built for
  \<open>{x, [1 2]}\<close> is \<open>x=1 2\<close>, and \<open>getTags\<close> then returns the two tags \<open>x=1\<close> and \<open>2\<close>. It
  also fails for a token longer than the line edit holds: a name of 40000 letters is
  read back as a tag of \<open>maxLength\<close> letters.
\<close>

theorem setProperties_getTags_counterexample:
  "property_tag (Some CHR ''='') \<lparr>p_name = ''x'', p_values = [''1 2'']\<rparr> = ''x=1 2'' \<and>
   getTags (setProperties (new_widget\<lparr>qtext := [], separator := Some CHR ''=''\<rparr>)
              [\<lparr>p_name = ''x'', p_values = [''1 2'']\<rparr>]) = [''x=1'', ''2''] \<and>
   getTags (setProperties (new_widget\<lparr>qtext := [], separator := Some CHR ''=''\<rparr>)
              [\<lparr>p_name = ''x'', p_values = [''1 2'']\<rparr>]) \<noteq> [''x=1 2''] \<and>
   property_tag (Some CHR ''='') \<lparr>p_name = replicate 40000 CHR ''a'', p_values = []\<rparr>
     = replicate 40000 CHR ''a'' \<and>
   getTags (setProperties (new_widget\<lparr>qtext := [], separator := Some CHR ''=''\<rparr>)
              [\<lparr>p_name = replicate 40000 CHR ''a'', p_values = []\<rparr>])
     = [replicate maxLength CHR ''a''] \<and>
   length (replicate maxLength CHR ''a'') < length (replicate 40000 CHR ''a'')"
proof -
  let ?w = "new_widget\<lparr>qtext := [], separator := Some CHR ''=''\<rparr>"
  have 1: "property_tag (Some CHR ''='') \<lparr>p_name = ''x'', p_values = [''1 2'']\<rparr> = ''x=1 2''"
    by (simp add: property_tag_def)
  have 2: "getTags (setProperties ?w [\<lparr>p_name = ''x'', p_values = [''1 2'']\<rparr>]) = [''x=1'', ''2'']"
    by (simp add: setProperties_def property_tag_def setTags_def
        setText_def maxLength_def getTags_def qsplit_def skipEmptyParts_def)
  have 3: "property_tag (Some CHR ''='') \<lparr>p_name = replicate 40000 CHR ''a'', p_values = []\<rparr>
      = replicate 40000 CHR ''a''"
    by (simp only: property_tag_def option.case fold.simps property.simps id_apply)
  have "maxLength \<le> 40000" by (simp add: maxLength_def)
  then have "getTags (setTags ?w [replicate 40000 CHR ''a'']) = [replicate maxLength CHR ''a'']"
    by (intro setTags_long_tag) simp_all
  then have 4: "getTags (setProperties ?w [\<lparr>p_name = replicate 40000 CHR ''a'', p_values = []\<rparr>])
      = [replicate maxLength CHR ''a'']"
    by (simp add: setProperties_tags 3)
  have 5: "length (replicate maxLength CHR ''a'') < length (replicate 40000 CHR ''a'')"
    by (simp only: length_replicate) (simp add: maxLength_def)
  from 1 2 3 4 5 show ?thesis by simp
qed

lemma addProperty_text:
  "qtext (addProperty w p) = take maxLength (qtext w @ CHR '' '' # property_tag (separator w) p)"
  by (simp add: addProperty_def setText_def)

text \<open>
  C5, as the code has it. \<open>addProperty\<close> sets the text to the old text, a space and the
  token of the property, cut at the maximum length of the line edit; the token is the
  name followed by separator and value for each value (the name alone without a
  separator). When old text and token together are shorter than \<open>maxLength\<close> nothing is
  cut. There is no case for the empty text: on an empty text the result starts with a
  space. Nothing else of the widget changes.
\<close>

theorem addProperty_spec:
  "(let token = (case separator w of
                   None \<Rightarrow> p_name p
                 | Some sep \<Rightarrow> p_name p @ concat (map (\<lambda>v. sep # v) (p_values p)))
    in qtext (addProperty w p) = take maxLength (qtext w @ CHR '' '' # token) \<and>
       (length (qtext w) + length token < maxLength \<longrightarrow>
          qtext (addProperty w p) = qtext w @ CHR '' '' # token)) \<and>
   (qtext w = [] \<longrightarrow> hd (qtext (addProperty w p)) = CHR '' '') \<and>
   separator (addProperty w p) = separator w \<and>
   unique_tags (addProperty w p) = unique_tags w"
proof (intro conjI)
  show "let token = (case separator w of
                   None \<Rightarrow> p_name p
                 | Some sep \<Rightarrow> p_name p @ concat (map (\<lambda>v. sep # v) (p_values p)))
    in qtext (addProperty w p) = take maxLength (qtext w @ CHR '' '' # token) \<and>
       (length (qtext w) + length token < maxLength \<longrightarrow>
          qtext (addProperty w p) = qtext w @ CHR '' '' # token)"
    by (simp add: Let_def addProperty_text property_tag_def fold_values split: option.splits)
  show "qtext w = [] \<longrightarrow> hd (qtext (addProperty w p)) = CHR '' ''"
    by (simp add: addProperty_text maxLength_def)
  show "separator (addProperty w p) = separator w"
    by (simp add: addProperty_def setText_def)
  show "unique_tags (addProperty w p) = unique_tags w"
    by (simp add: addProperty_def setText_def)
qed

theorem addProperty_spec_witness:
  "qtext (setPropertySeparator new_widget CHR ''='') = [] \<and>
   hd (qtext (addProperty (setPropertySeparator new_widget CHR ''='')
                \<lparr>p_name = ''a'', p_values = [''1'']\<rparr>)) = CHR '' '' \<and>
   length (qtext (setPropertySeparator new_widget CHR ''='')) + length ''a=1'' < maxLength \<and>
   qtext (addProperty (setPropertySeparator new_widget CHR ''='')
            \<lparr>p_name = ''a'', p_values = [''1'']\<rparr>) = '' a=1''"
proof -
  let ?w = "setPropertySeparator new_widget CHR ''=''"
  let ?p = "\<lparr>p_name = ''a'', p_values = [''1'']\<rparr>"
  have e: "qtext ?w = []" by (simp add: setPropertySeparator_def new_widget_def)
  have s: "separator ?w = Some CHR ''=''" by (simp add: setPropertySeparator_def)
  have l: "length (qtext ?w) + length ''a=1'' < maxLength" by (simp add: e maxLength_def)
  from addProperty_spec [where w = ?w and p = ?p]
  have q: "let token = (case separator ?w of
                   None \<Rightarrow> p_name ?p
                 | Some sep \<Rightarrow> p_name ?p @ concat (map (\<lambda>v. sep # v) (p_values ?p)))
    in qtext (addProperty ?w ?p) = take maxLength (qtext ?w @ CHR '' '' # token) \<and>
       (length (qtext ?w) + length token < maxLength \<longrightarrow>
          qtext (addProperty ?w ?p) = qtext ?w @ CHR '' '' # token)"
    and h: "qtext ?w = [] \<longrightarrow> hd (qtext (addProperty ?w ?p)) = CHR '' ''"
    by blast+
  from h e have h': "hd (qtext (addProperty ?w ?p)) = CHR '' ''" by (rule mp)
  from q l have q': "qtext (addProperty ?w ?p) = '' a=1''" by (simp add: Let_def s e)
  from e h' l q' show ?thesis by (intro conjI)
qed

text \<open>
  C5 as stated fails on a full text: with \<open>maxLength\<close> characters in the line edit,
  \<open>addProperty\<close> leaves the text as it is, and the token is not appended.
\<close>

theorem addProperty_full_counterexample:
  "length (qtext (new_widget\<lparr>qtext := replicate maxLength CHR ''a''\<rparr>)) = maxLength \<and>
   qtext (addProperty (new_widget\<lparr>qtext := replicate maxLength CHR ''a''\<rparr>)
            \<lparr>p_name = ''b'', p_values = []\<rparr>) = replicate maxLength CHR ''a'' \<and>
   qtext (addProperty (new_widget\<lparr>qtext := replicate maxLength CHR ''a''\<rparr>)
            \<lparr>p_name = ''b'', p_values = []\<rparr>) \<noteq> replicate maxLength CHR ''a'' @ '' b''"
  by (simp add: addProperty_text)

section \<open>Tags and text\<close>

text \<open>
  C4, as the code has it. For every list of non-empty tags without a space whose joined
  text (the tags with one space between neighbours) is at most \<open>maxLength\<close> characters
  long, \<open>getTags\<close> after \<open>setTags\<close> returns the list. For every text \<open>s\<close> of at most
  \<open>maxLength\<close> characters without leading, trailing or doubled spaces, setting the tags
  of \<open>s\<close> and reading them back returns the tags of \<open>s\<close>, and the text is \<open>s\<close> again.
\<close>

theorem setTags_getTags_roundtrip:
  "((\<forall>t \<in> set tags. t \<noteq> [] \<and> CHR '' '' \<notin> set t) \<and>
    length (join '' '' tags) \<le> maxLength \<longrightarrow> getTags (setTags w tags) = tags) \<and>
   (single_spaced s \<and> length s \<le> maxLength \<longrightarrow>
      getTags (setTags w (skipEmptyParts (qsplit CHR '' '' s)))
        = skipEmptyParts (qsplit CHR '' '' s) \<and>
      qtext (setTags w (skipEmptyParts (qsplit CHR '' '' s))) = s)"
proof (intro conjI impI)
  assume "(\<forall>t \<in> set tags. t \<noteq> [] \<and> CHR '' '' \<notin> set t) \<and> length (join '' '' tags) \<le> maxLength"
  then show "getTags (setTags w tags) = tags" by (simp add: getTags_setTags)
next
  assume a: "single_spaced s \<and> length s \<le> maxLength"
  then have t: "qtext (setTags w (skipEmptyParts (qsplit CHR '' '' s))) = s"
    by (simp add: setTags_tokens_text)
  have "setTags w (skipEmptyParts (qsplit CHR '' '' s)) = w\<lparr>qtext := s\<rparr>"
    using t by (simp add: setTags_def setText_def)
  then show "getTags (setTags w (skipEmptyParts (qsplit CHR '' '' s)))
        = skipEmptyParts (qsplit CHR '' '' s)"
    by (simp add: getTags_def)
  show "qtext (setTags w (skipEmptyParts (qsplit CHR '' '' s))) = s" by (rule t)
qed

theorem setTags_getTags_roundtrip_witness:
  "length (join '' '' [''wow'', ''such'', ''tags'']) \<le> maxLength \<and>
   getTags (setTags new_widget [''wow'', ''such'', ''tags'']) = [''wow'', ''such'', ''tags''] \<and>
   single_spaced ''wow such tags'' \<and> length ''wow such tags'' \<le> maxLength \<and>
   skipEmptyParts (qsplit CHR '' '' ''wow such tags'') = [''wow'', ''such'', ''tags''] \<and>
   qtext (setTags new_widget (skipEmptyParts (qsplit CHR '' '' ''wow such tags'')))
     = ''wow such tags''"
proof -
  let ?ts = "[''wow'', ''such'', ''tags'']"
  let ?s = "''wow such tags''"
  have a: "(\<forall>t \<in> set ?ts. t \<noteq> [] \<and> CHR '' '' \<notin> set t) \<and> length (join '' '' ?ts) \<le> maxLength"
    by (simp add: maxLength_def)
  have b: "single_spaced ?s \<and> length ?s \<le> maxLength"
    by (simp add: single_spaced_def maxLength_def)
  have k: "skipEmptyParts (qsplit CHR '' '' ?s) = ?ts"
    by (simp add: skipEmptyParts_def qsplit_def)
  from setTags_getTags_roundtrip [of ?ts new_widget ?s]
  have 1: "(\<forall>t \<in> set ?ts. t \<noteq> [] \<and> CHR '' '' \<notin> set t) \<and> length (join '' '' ?ts) \<le> maxLength
      \<longrightarrow> getTags (setTags new_widget ?ts) = ?ts"
    and 2: "single_spaced ?s \<and> length ?s \<le> maxLength \<longrightarrow>
      getTags (setTags new_widget (skipEmptyParts (qsplit CHR '' '' ?s)))
        = skipEmptyParts (qsplit CHR '' '' ?s) \<and>
      qtext (setTags new_widget (skipEmptyParts (qsplit CHR '' '' ?s))) = ?s"
    by blast+
  from 1 a have c: "getTags (setTags new_widget ?ts) = ?ts" by (rule mp)
  from 2 b have "getTags (setTags new_widget (skipEmptyParts (qsplit CHR '' '' ?s)))
        = skipEmptyParts (qsplit CHR '' '' ?s) \<and>
      qtext (setTags new_widget (skipEmptyParts (qsplit CHR '' '' ?s))) = ?s" by (rule mp)
  then have d: "qtext (setTags new_widget (skipEmptyParts (qsplit CHR '' '' ?s))) = ?s"
    by (rule conjunct2)
  from a have l: "length (join '' '' ?ts) \<le> maxLength" by (rule conjunct2)
  from b have b1: "single_spaced ?s" and b2: "length ?s \<le> maxLength" by simp_all
  from l c b1 b2 k d show ?thesis by (intro conjI)
qed

text \<open>
  C4 as stated fails for a tag longer than the line edit holds: one tag of 40000 letters,
  non-empty and without a space, is read back as a tag of \<open>maxLength\<close> letters.
\<close>

theorem setTags_getTags_long_counterexample:
  "replicate 40000 CHR ''a'' \<noteq> [] \<and> CHR '' '' \<notin> set (replicate 40000 CHR ''a'') \<and>
   getTags (setTags new_widget [replicate 40000 CHR ''a'']) = [replicate maxLength CHR ''a''] \<and>
   length (replicate maxLength CHR ''a'') < length (replicate 40000 CHR ''a'') \<and>
   getTags (setTags new_widget [replicate 40000 CHR ''a'']) \<noteq> [replicate 40000 CHR ''a'']"
proof -
  have 1: "replicate 40000 CHR ''a'' \<noteq> []" by (simp only: replicate_empty)
  have 2: "CHR '' '' \<notin> set (replicate 40000 CHR ''a'')" by (simp only: set_replicate_conv_if) simp
  have m: "maxLength \<le> 40000" by (simp add: maxLength_def)
  then have 3: "getTags (setTags new_widget [replicate 40000 CHR ''a''])
      = [replicate maxLength CHR ''a'']"
    by (intro setTags_long_tag) simp_all
  have 4: "length (replicate maxLength CHR ''a'') < length (replicate 40000 CHR ''a'')"
    by (simp only: length_replicate) (simp add: maxLength_def)
  from 4 have "replicate maxLength CHR ''a'' \<noteq> replicate 40000 CHR ''a''" by auto
  with 3 have 5: "getTags (setTags new_widget [replicate 40000 CHR ''a''])
      \<noteq> [replicate 40000 CHR ''a'']"
    by simp
  from 1 2 3 4 5 show ?thesis by (intro conjI)
qed

text \<open>
  C7. When the text holds a space, \<open>removeLastTag\<close> cuts it at the last space: the old
  text is the new one, a space, and a rest without space (for every text the line edit
  can hold, that is, of at most \<open>maxLength\<close> characters). When the text holds no space
  it becomes empty. Separator and uniqueness flag stay. \<open>a b c\<close> becomes \<open>a b\<close>, and \<open>a\<close>
  becomes the empty text.
\<close>

theorem removeLastTag_spec:
  "(CHR '' '' \<in> set (qtext w) \<and> length (qtext w) \<le> maxLength \<longrightarrow>
      (\<exists>suf. CHR '' '' \<notin> set suf \<and> qtext w = qtext (removeLastTag w) @ CHR '' '' # suf)) \<and>
   (CHR '' '' \<in> set (qtext w) \<longrightarrow>
      (\<exists>pre suf. CHR '' '' \<notin> set suf \<and> qtext w = pre @ CHR '' '' # suf \<and>
         qtext (removeLastTag w) = take maxLength pre)) \<and>
   (CHR '' '' \<notin> set (qtext w) \<longrightarrow> qtext (removeLastTag w) = []) \<and>
   separator (removeLastTag w) = separator w \<and>
   unique_tags (removeLastTag w) = unique_tags w \<and>
   qtext (removeLastTag (w\<lparr>qtext := ''a b c''\<rparr>)) = ''a b'' \<and>
   qtext (removeLastTag (w\<lparr>qtext := ''a''\<rparr>)) = []"
proof (intro conjI impI)
  assume a: "CHR '' '' \<in> set (qtext w) \<and> length (qtext w) \<le> maxLength"
  then obtain pre suf where s: "qtext w = pre @ CHR '' '' # suf" "CHR '' '' \<notin> set suf"
    by (auto dest: split_list_last)
  with a have "length pre \<le> maxLength" by simp
  with s have "removeLastTag (w\<lparr>qtext := pre @ CHR '' '' # suf\<rparr>) = w\<lparr>qtext := pre\<rparr>"
    by (simp add: removeLastTag_space)
  moreover have "w\<lparr>qtext := pre @ CHR '' '' # suf\<rparr> = w" using s(1) by simp
  ultimately have "qtext (removeLastTag w) = pre" by simp
  with s show "\<exists>suf. CHR '' '' \<notin> set suf \<and> qtext w = qtext (removeLastTag w) @ CHR '' '' # suf"
    by auto
next
  assume "CHR '' '' \<in> set (qtext w)"
  then obtain pre suf where s: "qtext w = pre @ CHR '' '' # suf" "CHR '' '' \<notin> set suf"
    by (auto dest: split_list_last)
  then have "lastIndexOf (qtext w) CHR '' '' = int (length pre)"
    by (simp add: lastIndexOf_def lastIndexOf_from_last)
  then have "qtext (removeLastTag w) = take maxLength (take (length pre) (qtext w))"
    by (simp add: removeLastTag_def Let_def setText_def qtruncate_def)
  with s(1) have "qtext (removeLastTag w) = take maxLength pre" by simp
  with s show "\<exists>pre suf. CHR '' '' \<notin> set suf \<and> qtext w = pre @ CHR '' '' # suf \<and>
         qtext (removeLastTag w) = take maxLength pre"
    by blast
next
  assume "CHR '' '' \<notin> set (qtext w)"
  then show "qtext (removeLastTag w) = []" by (simp add: removeLastTag_no_space)
next
  show "separator (removeLastTag w) = separator w"
    by (simp add: removeLastTag_def Let_def setText_def)
  show "unique_tags (removeLastTag w) = unique_tags w"
    by (simp add: removeLastTag_def Let_def setText_def)
  show "qtext (removeLastTag (w\<lparr>qtext := ''a b c''\<rparr>)) = ''a b''"
    by (simp add: removeLastTag_def lastIndexOf_def Let_def setText_def maxLength_def
        qtruncate_def)
  show "qtext (removeLastTag (w\<lparr>qtext := ''a''\<rparr>)) = []"
    by (simp add: removeLastTag_def lastIndexOf_def Let_def setText_def qtruncate_def)
qed

theorem removeLastTag_spec_witness:
  "CHR '' '' \<in> set (qtext (new_widget\<lparr>qtext := ''a b c''\<rparr>)) \<and>
   length (qtext (new_widget\<lparr>qtext := ''a b c''\<rparr>)) \<le> maxLength \<and>
   (\<exists>suf. CHR '' '' \<notin> set suf \<and>
      qtext (new_widget\<lparr>qtext := ''a b c''\<rparr>)
        = qtext (removeLastTag (new_widget\<lparr>qtext := ''a b c''\<rparr>))
            @ CHR '' '' # suf) \<and>
   CHR '' '' \<notin> set (qtext (new_widget\<lparr>qtext := ''a''\<rparr>)) \<and>
   qtext (removeLastTag (new_widget\<lparr>qtext := ''a''\<rparr>)) = []"
proof -
  let ?w = "(new_widget\<lparr>qtext := ''a b c''\<rparr>)"
  let ?v = "(new_widget\<lparr>qtext := ''a''\<rparr>)"
  have a: "CHR '' '' \<in> set (qtext ?w)" by simp
  have l: "length (qtext ?w) \<le> maxLength" by (simp add: maxLength_def)
  have b: "CHR '' '' \<notin> set (qtext ?v)" by simp
  from removeLastTag_spec [of ?w]
  have "CHR '' '' \<in> set (qtext ?w) \<and> length (qtext ?w) \<le> maxLength \<longrightarrow>
      (\<exists>suf. CHR '' '' \<notin> set suf \<and> qtext ?w = qtext (removeLastTag ?w) @ CHR '' '' # suf)"
    by (rule conjunct1)
  moreover from a l have "CHR '' '' \<in> set (qtext ?w) \<and> length (qtext ?w) \<le> maxLength"
    by (rule conjI)
  ultimately
  have c: "\<exists>suf. CHR '' '' \<notin> set suf \<and> qtext ?w = qtext (removeLastTag ?w) @ CHR '' '' # suf"
    by (rule mp)
  from removeLastTag_spec [of ?v]
  have "CHR '' '' \<notin> set (qtext ?v) \<longrightarrow> qtext (removeLastTag ?v) = []"
    by (rule conjunct1 [OF conjunct2 [OF conjunct2]])
  from this b have d: "qtext (removeLastTag ?v) = []" by (rule mp)
  from a l c b d show ?thesis by (intro conjI)
qed

lemma removeLastTag_shorter:
  assumes "qtext w \<noteq> []"
  shows "length (qtext (removeLastTag w)) < length (qtext w)"
proof (cases "CHR '' '' \<in> set (qtext w)")
  case False
  with assms show ?thesis by (simp add: removeLastTag_no_space)
next
  case True
  then obtain pre suf where s: "qtext w = pre @ CHR '' '' # suf" "CHR '' '' \<notin> set suf"
    by (auto dest: split_list_last)
  then have "lastIndexOf (qtext w) CHR '' '' = int (length pre)"
    by (simp add: lastIndexOf_def lastIndexOf_from_last)
  then have "qtext (removeLastTag w) = take maxLength (take (length pre) (qtext w))"
    by (simp add: removeLastTag_def Let_def setText_def qtruncate_def)
  then show ?thesis using s(1) by simp
qed

lemma addTag_full:
  assumes "length (qtext w) = maxLength"
  shows "addTag w tag = w"
proof -
  from assms maxLength_pos have "qtext w \<noteq> []" by auto
  with assms show ?thesis by (simp add: addTag_def setText_def)
qed

text \<open>
  C10, as the code has it. For every tag without a space and every text shorter than
  \<open>maxLength\<close> characters, \<open>removeLastTag\<close> after \<open>addTag\<close> gives back the widget as it was,
  and so its text. On a text of \<open>maxLength\<close> characters it does not: \<open>addTag\<close> changes
  nothing there, and \<open>removeLastTag\<close> then removes a tag that was there before.
\<close>

theorem addTag_removeLastTag:
  "(CHR '' '' \<notin> set tag \<and> length (qtext w) < maxLength \<longrightarrow> removeLastTag (addTag w tag) = w) \<and>
   (length (qtext w) = maxLength \<longrightarrow> removeLastTag (addTag w tag) \<noteq> w)"
proof (intro conjI impI)
  assume a: "CHR '' '' \<notin> set tag \<and> length (qtext w) < maxLength"
  show "removeLastTag (addTag w tag) = w"
  proof (cases "qtext w = []")
    case True
    from a have "CHR '' '' \<notin> set (take maxLength tag)" by (auto dest: in_set_takeD)
    then have "removeLastTag (w\<lparr>qtext := take maxLength tag\<rparr>)
        = w\<lparr>qtext := take maxLength tag, qtext := []\<rparr>"
      using removeLastTag_no_space [of "w\<lparr>qtext := take maxLength tag\<rparr>"] by simp
    with True show ?thesis by (simp add: addTag_def setText_def)
  next
    case False
    let ?rest = "take (maxLength - Suc (length (qtext w))) tag"
    from a have t: "take maxLength (qtext w @ CHR '' '' # tag) = qtext w @ CHR '' '' # ?rest"
      by (simp add: take_Cons')
    from a have "CHR '' '' \<notin> set ?rest" by (auto dest: in_set_takeD)
    moreover from a have "length (qtext w) \<le> maxLength" by simp
    ultimately have "removeLastTag (w\<lparr>qtext := qtext w @ CHR '' '' # ?rest\<rparr>)
        = w\<lparr>qtext := qtext w\<rparr>"
      by (rule removeLastTag_space)
    with False t show ?thesis by (simp add: addTag_def setText_def)
  qed
next
  assume f: "length (qtext w) = maxLength"
  with maxLength_pos have "qtext w \<noteq> []" by auto
  then have "length (qtext (removeLastTag w)) < length (qtext w)" by (rule removeLastTag_shorter)
  then have "removeLastTag w \<noteq> w" by auto
  with f show "removeLastTag (addTag w tag) \<noteq> w" by (simp add: addTag_full)
qed

theorem addTag_removeLastTag_witness:
  "CHR '' '' \<notin> set ''tags'' \<and>
   length (qtext (new_widget\<lparr>qtext := ''wow such''\<rparr>)) < maxLength \<and>
   removeLastTag (addTag (new_widget\<lparr>qtext := ''wow such''\<rparr>) ''tags'')
     = (new_widget\<lparr>qtext := ''wow such''\<rparr>) \<and>
   length (qtext (new_widget\<lparr>qtext := replicate maxLength CHR ''a''\<rparr>)) = maxLength \<and>
   removeLastTag (addTag (new_widget\<lparr>qtext := replicate maxLength CHR ''a''\<rparr>) ''tags'')
     \<noteq> new_widget\<lparr>qtext := replicate maxLength CHR ''a''\<rparr>"
proof -
  let ?w = "new_widget\<lparr>qtext := ''wow such''\<rparr>"
  let ?f = "new_widget\<lparr>qtext := replicate maxLength CHR ''a''\<rparr>"
  have a: "CHR '' '' \<notin> set ''tags''" by simp
  have l: "length (qtext ?w) < maxLength" by (simp add: maxLength_def)
  have f: "length (qtext ?f) = maxLength" by simp
  from addTag_removeLastTag [of "''tags''" ?w]
  have "CHR '' '' \<notin> set ''tags'' \<and> length (qtext ?w) < maxLength
      \<longrightarrow> removeLastTag (addTag ?w ''tags'') = ?w"
    by (rule conjunct1)
  moreover from a l have "CHR '' '' \<notin> set ''tags'' \<and> length (qtext ?w) < maxLength"
    by (rule conjI)
  ultimately have r: "removeLastTag (addTag ?w ''tags'') = ?w" by (rule mp)
  from addTag_removeLastTag [of "''tags''" ?f]
  have "length (qtext ?f) = maxLength \<longrightarrow> removeLastTag (addTag ?f ''tags'') \<noteq> ?f"
    by (rule conjunct2)
  from this f have n: "removeLastTag (addTag ?f ''tags'') \<noteq> ?f" by (rule mp)
  from a l r f n show ?thesis by (intro conjI)
qed

text \<open>
  C10 as stated fails on a full text. The text of \<open>maxLength - 2\<close> letters \<open>a\<close>, a space and
  \<open>b\<close> fills the line edit: \<open>addTag\<close> with \<open>x\<close> leaves it as it is, and \<open>removeLastTag\<close>
  then cuts it to the letters \<open>a\<close>.
\<close>

theorem addTag_removeLastTag_full_counterexample:
  "CHR '' '' \<notin> set ''x'' \<and>
   length (qtext (new_widget\<lparr>qtext := replicate (maxLength - 2) CHR ''a'' @ '' b''\<rparr>))
     = maxLength \<and>
   qtext (addTag (new_widget\<lparr>qtext := replicate (maxLength - 2) CHR ''a'' @ '' b''\<rparr>) ''x'')
     = replicate (maxLength - 2) CHR ''a'' @ '' b'' \<and>
   qtext (removeLastTag
       (addTag (new_widget\<lparr>qtext := replicate (maxLength - 2) CHR ''a'' @ '' b''\<rparr>) ''x''))
     = replicate (maxLength - 2) CHR ''a'' \<and>
   removeLastTag
       (addTag (new_widget\<lparr>qtext := replicate (maxLength - 2) CHR ''a'' @ '' b''\<rparr>) ''x'')
     \<noteq> new_widget\<lparr>qtext := replicate (maxLength - 2) CHR ''a'' @ '' b''\<rparr>"
proof -
  let ?w = "new_widget\<lparr>qtext := replicate (maxLength - 2) CHR ''a'' @ '' b''\<rparr>"
  have m: "maxLength - 2 + 2 = maxLength" by (simp add: maxLength_def)
  have x: "CHR '' '' \<notin> set ''x''" by simp
  have l: "length (qtext ?w) = maxLength" using m by simp
  then have a: "addTag ?w ''x'' = ?w" by (rule addTag_full)
  have "CHR '' '' \<notin> set ''b''" by simp
  moreover have "length (replicate (maxLength - 2) CHR ''a'') \<le> maxLength" by simp
  ultimately have "removeLastTag (new_widget\<lparr>qtext := replicate (maxLength - 2) CHR ''a'' @ CHR '' '' # ''b''\<rparr>)
      = new_widget\<lparr>qtext := replicate (maxLength - 2) CHR ''a''\<rparr>"
    by (rule removeLastTag_space)
  then have r: "removeLastTag ?w = new_widget\<lparr>qtext := replicate (maxLength - 2) CHR ''a''\<rparr>"
    by simp
  have q1: "qtext (addTag ?w ''x'') = replicate (maxLength - 2) CHR ''a'' @ '' b''"
    unfolding a by simp
  have q2: "qtext (removeLastTag (addTag ?w ''x'')) = replicate (maxLength - 2) CHR ''a''"
    unfolding a r by simp
  from q2 have n: "removeLastTag (addTag ?w ''x'') \<noteq> ?w"
    by (auto dest: arg_cong [where f = qtext])
  from x l q1 q2 n show ?thesis by (intro conjI)
qed

section \<open>De-duplication\<close>

text \<open>
  C3. With the uniqueness flag off \<open>makeTagsUnique\<close> changes nothing. With the flag on
  and no separator the tags afterwards are the tags before with every run of equal
  neighbours collapsed to its first entry. With the flag on and separator \<open>sep\<close> the
  same holds with entries compared by property name: the properties afterwards are the
  properties before with every run of neighbours of one name collapsed to its first
  entry, and so are the tags. This holds for every text the line edit can hold, that
  is, of at most \<open>maxLength\<close> characters. Entries that are equal but not neighbours stay:
  \<open>a a b a\<close> becomes \<open>a b a\<close>.
\<close>

theorem makeTagsUnique_spec:
  "(\<not> unique_tags w \<longrightarrow> makeTagsUnique w = w) \<and>
   (unique_tags w \<and> separator w = None \<and> length (qtext w) \<le> maxLength \<longrightarrow>
      getTags (makeTagsUnique w) = collapse_runs (\<lambda>tag. tag) (getTags w)) \<and>
   (unique_tags w \<and> separator w = Some sep \<and> length (qtext w) \<le> maxLength \<longrightarrow>
      getProperties (makeTagsUnique w) = collapse_runs p_name (getProperties w) \<and>
      getTags (makeTagsUnique w)
        = collapse_runs (\<lambda>tag. p_name (tag_property sep tag)) (getTags w)) \<and>
   (unique_tags w \<longrightarrow>
      getTags (makeTagsUnique (setTags w [''a'', ''a'', ''b'', ''a''])) = [''a'', ''b'', ''a''])"
proof (intro conjI impI)
  assume "\<not> unique_tags w"
  then show "makeTagsUnique w = w" by (simp add: makeTagsUnique_def)
next
  assume "unique_tags w \<and> separator w = None \<and> length (qtext w) \<le> maxLength"
  then show "getTags (makeTagsUnique w) = collapse_runs (\<lambda>tag. tag) (getTags w)"
    by (simp add: makeTagsUnique_None getTags_setTags_collapse)
next
  assume a: "unique_tags w \<and> separator w = Some sep \<and> length (qtext w) \<le> maxLength"
  then show tags: "getTags (makeTagsUnique w)
        = collapse_runs (\<lambda>tag. p_name (tag_property sep tag)) (getTags w)"
    by (simp add: makeTagsUnique_Some getTags_setTags_collapse)
  from a have "separator (makeTagsUnique w) = Some sep"
    by (simp add: makeTagsUnique_Some separator_setTags)
  then have "getProperties (makeTagsUnique w) = map (tag_property sep) (getTags (makeTagsUnique w))"
    by (rule getProperties_Some)
  with tags a show "getProperties (makeTagsUnique w) = collapse_runs p_name (getProperties w)"
    by (simp add: getProperties_Some collapse_runs_map)
next
  assume u: "unique_tags w"
  let ?w = "setTags w [''a'', ''a'', ''b'', ''a'']"
  have t: "getTags ?w = [''a'', ''a'', ''b'', ''a'']"
    by (simp add: getTags_setTags maxLength_def)
  have u': "unique_tags ?w" using u by (simp add: setTags_def setText_def)
  have l: "length (qtext ?w) \<le> maxLength" unfolding setTags_def by (rule length_setText)
  show "getTags (makeTagsUnique ?w) = [''a'', ''b'', ''a'']"
  proof (cases "separator ?w")
    case None
    with u' l have "getTags (makeTagsUnique ?w) = collapse_runs (\<lambda>tag. tag) (getTags ?w)"
      by (simp add: makeTagsUnique_None getTags_setTags_collapse)
    then show ?thesis by (simp add: t)
  next
    case (Some sep)
    with u' l have "getTags (makeTagsUnique ?w)
        = collapse_runs (\<lambda>tag. p_name (tag_property sep tag)) (getTags ?w)"
      by (simp add: makeTagsUnique_Some getTags_setTags_collapse)
    then show ?thesis using abba_keys [of sep] abba_keys [of sep, symmetric] by (simp add: t)
  qed
qed

theorem makeTagsUnique_spec_witness:
  "\<not> unique_tags (new_widget\<lparr>qtext := ''a a b a'', unique_tags := False\<rparr>) \<and>
   makeTagsUnique (new_widget\<lparr>qtext := ''a a b a'', unique_tags := False\<rparr>)
     = (new_widget\<lparr>qtext := ''a a b a'', unique_tags := False\<rparr>) \<and>
   unique_tags (new_widget\<lparr>qtext := ''a a b a''\<rparr>) \<and>
   separator (new_widget\<lparr>qtext := ''a a b a''\<rparr>) = None \<and>
   length (qtext (new_widget\<lparr>qtext := ''a a b a''\<rparr>)) \<le> maxLength \<and>
   getTags (makeTagsUnique (new_widget\<lparr>qtext := ''a a b a''\<rparr>))
     = [''a'', ''b'', ''a''] \<and>
   unique_tags (new_widget\<lparr>qtext := ''w=1 w=2 h=1 w=3'', separator := Some CHR ''=''\<rparr>) \<and>
   separator (new_widget\<lparr>qtext := ''w=1 w=2 h=1 w=3'', separator := Some CHR ''=''\<rparr>)
     = Some CHR ''='' \<and>
   length (qtext (new_widget\<lparr>qtext := ''w=1 w=2 h=1 w=3'', separator := Some CHR ''=''\<rparr>))
     \<le> maxLength \<and>
   getTags (makeTagsUnique
       (new_widget\<lparr>qtext := ''w=1 w=2 h=1 w=3'', separator := Some CHR ''=''\<rparr>))
     = [''w=1'', ''h=1'', ''w=3'']"
proof -
  let ?f = "(new_widget\<lparr>qtext := ''a a b a'', unique_tags := False\<rparr>)"
  let ?n = "(new_widget\<lparr>qtext := ''a a b a''\<rparr>)"
  let ?s = "(new_widget\<lparr>qtext := ''w=1 w=2 h=1 w=3'', separator := Some CHR ''=''\<rparr>)"
  have f: "\<not> unique_tags ?f" by simp
  have n: "unique_tags ?n \<and> separator ?n = None \<and> length (qtext ?n) \<le> maxLength"
    by (simp add: new_widget_def maxLength_def)
  have s: "unique_tags ?s \<and> separator ?s = Some CHR ''='' \<and> length (qtext ?s) \<le> maxLength"
    by (simp add: new_widget_def maxLength_def)
  have tn: "getTags ?n = [''a'', ''a'', ''b'', ''a'']"
    by (simp add: getTags_def qsplit_def skipEmptyParts_def)
  have ts: "getTags ?s = [''w=1'', ''w=2'', ''h=1'', ''w=3'']"
    by (simp add: getTags_def qsplit_def skipEmptyParts_def)
  from makeTagsUnique_spec [of ?f] f have 1: "makeTagsUnique ?f = ?f" by blast
  from makeTagsUnique_spec [of ?n] n
  have "getTags (makeTagsUnique ?n) = collapse_runs (\<lambda>tag. tag) (getTags ?n)" by blast
  then have 2: "getTags (makeTagsUnique ?n) = [''a'', ''b'', ''a'']" by (simp add: tn)
  from makeTagsUnique_spec [of ?s "CHR ''=''"] s
  have "getTags (makeTagsUnique ?s)
          = collapse_runs (\<lambda>tag. p_name (tag_property CHR ''='' tag)) (getTags ?s)" by blast
  then have 3: "getTags (makeTagsUnique ?s) = [''w=1'', ''h=1'', ''w=3'']"
    by (simp add: ts tag_property_name)
  from f 1 n 2 s 3 show ?thesis by simp
qed

section \<open>The cursor of the renderer\<close>

lemma left_moveLeft: "left (moveLeft r pos) = pos"
  by (simp add: left_def moveLeft_def)

lemma text_offsets_append: "text_offsets (ps @ qs) = text_offsets ps @ text_offsets qs"
  by (induction ps rule: text_offsets.induct) auto

lemma line_offsets_append: "line_offsets (ps @ qs) = line_offsets ps @ line_offsets qs"
  by (induction ps rule: line_offsets.induct) auto

lemma text_offsets_renderTags_loop:
  "text_offsets (renderTags_loop h w rect tags)
     = advance_offsets (horizontalAdvance h) (left rect) tags"
  by (induction tags arbitrary: rect) (simp_all add: Let_def left_moveLeft)

lemma text_rect_bottomLeft:
  "fst (bottomLeft (text_rect h ty str offset margin)) = offset - m_left margin"
  by (simp add: text_rect_def Let_def bottomLeft_def marginsAdded_def moveLeft_def
      moveBottom_def QRect_def)

lemma line_offsets_renderTagBackgrounds_loop:
  "line_offsets (renderTagBackgrounds_loop h w ty line_only rect tags)
     = advance_offsets (horizontalAdvance h) (left rect) tags"
proof (induction tags arbitrary: rect)
  case Nil
  show ?case by simp
next
  case (Cons tag tags)
  have m: "m_left kTagMargins = 0"
    by (simp add: kTagMargins_def QMargins_def kLeftMargin_def)
  show ?case
    by (simp add: Let_def line_offsets_append text_rect_bottomLeft m Cons.IH left_moveLeft)
qed

lemma length_advance_offsets: "length (advance_offsets adv x ts) = length ts"
  by (induction ts arbitrary: x) auto

lemma advance_offsets_0: "ts \<noteq> [] \<Longrightarrow> advance_offsets adv x ts ! 0 = x"
  by (cases ts) auto

lemma advance_offsets_Suc:
  "Suc i < length ts \<Longrightarrow>
     advance_offsets adv x ts ! Suc i = advance_offsets adv x ts ! i + adv (ts ! i @ '' '')"
proof (induction ts arbitrary: x i)
  case Nil
  then show ?case by simp
next
  case (Cons t ts)
  show ?case
  proof (cases i)
    case 0
    with Cons.prems show ?thesis by (cases ts) auto
  next
    case (Suc j)
    with Cons.prems have "Suc j < length ts" by simp
    then show ?thesis using Cons.IH [of j "x + adv (t @ '' '')"] Suc by simp
  qed
qed

text \<open>
  C9, as the code has it. In both passes (\<open>renderTags\<close> and \<open>renderTagBackgrounds\<close>) one
  item is drawn per tag, the first at the left edge of the rectangle passed in, and the
  item of tag \<open>i + 1\<close> is drawn at the offset of tag \<open>i\<close> plus the measured width of the
  string made of tag \<open>i\<close> followed by one space: one measurement of the concatenation.
  When the measurement of every tag is additive over the appended space, this is the
  offset of tag \<open>i\<close> plus the width of tag \<open>i\<close> plus the width of a space.
\<close>

theorem render_advance:
  "length (text_offsets (renderTags h w rect)) = length (getTags w) \<and>
   length (line_offsets (renderTagBackgrounds h w rect line_only)) = length (getTags w) \<and>
   (getTags w \<noteq> [] \<longrightarrow>
      text_offsets (renderTags h w rect) ! 0 = left rect \<and>
      line_offsets (renderTagBackgrounds h w rect line_only) ! 0 = left rect) \<and>
   (\<forall>i. Suc i < length (getTags w) \<longrightarrow>
      text_offsets (renderTags h w rect) ! Suc i
        = text_offsets (renderTags h w rect) ! i
            + horizontalAdvance h (getTags w ! i @ '' '') \<and>
      line_offsets (renderTagBackgrounds h w rect line_only) ! Suc i
        = line_offsets (renderTagBackgrounds h w rect line_only) ! i
            + horizontalAdvance h (getTags w ! i @ '' '')) \<and>
   ((\<forall>t \<in> set (getTags w).
       horizontalAdvance h (t @ '' '') = horizontalAdvance h t + horizontalAdvance h '' '') \<longrightarrow>
    (\<forall>i. Suc i < length (getTags w) \<longrightarrow>
      text_offsets (renderTags h w rect) ! Suc i
        = text_offsets (renderTags h w rect) ! i
            + horizontalAdvance h (getTags w ! i) + horizontalAdvance h '' '' \<and>
      line_offsets (renderTagBackgrounds h w rect line_only) ! Suc i
        = line_offsets (renderTagBackgrounds h w rect line_only) ! i
            + horizontalAdvance h (getTags w ! i) + horizontalAdvance h '' ''))"
proof -
  let ?a = "advance_offsets (horizontalAdvance h) (left rect) (getTags w)"
  have t: "text_offsets (renderTags h w rect) = ?a"
    by (simp add: renderTags_def text_offsets_renderTags_loop)
  have l: "line_offsets (renderTagBackgrounds h w rect line_only) = ?a"
    by (simp add: renderTagBackgrounds_def line_offsets_renderTagBackgrounds_loop)
  have step: "\<forall>i. Suc i < length (getTags w) \<longrightarrow>
      ?a ! Suc i = ?a ! i + horizontalAdvance h (getTags w ! i @ '' '')"
    by (simp add: advance_offsets_Suc)
  have add: "\<forall>i. Suc i < length (getTags w) \<longrightarrow>
      ?a ! Suc i = ?a ! i + horizontalAdvance h (getTags w ! i) + horizontalAdvance h '' ''"
    if "\<forall>t \<in> set (getTags w).
       horizontalAdvance h (t @ '' '') = horizontalAdvance h t + horizontalAdvance h '' ''"
  proof (intro allI impI)
    fix i assume i: "Suc i < length (getTags w)"
    then have "getTags w ! i \<in> set (getTags w)" by simp
    with that have "horizontalAdvance h (getTags w ! i @ '' '')
        = horizontalAdvance h (getTags w ! i) + horizontalAdvance h '' ''" by blast
    with i show "?a ! Suc i = ?a ! i + horizontalAdvance h (getTags w ! i) + horizontalAdvance h '' ''"
      by (simp add: advance_offsets_Suc)
  qed
  show ?thesis
    unfolding t l using step add by (simp add: length_advance_offsets advance_offsets_0)
qed

theorem render_advance_witness:
  "getTags (setTags new_widget [''a'', ''b'']) = [''a'', ''b''] \<and>
   text_offsets (renderTags example_host (setTags new_widget [''a'', ''b'']) (QRect 3 0 100 20))
     = [3, 18] \<and>
   line_offsets (renderTagBackgrounds example_host (setTags new_widget [''a'', ''b''])
       (QRect 3 0 100 20) False) = [3, 18] \<and>
   horizontalAdvance example_host ''a '' = 15 \<and>
   horizontalAdvance monospace_host ''a '' =
     horizontalAdvance monospace_host ''a'' + horizontalAdvance monospace_host '' '' \<and>
   horizontalAdvance monospace_host ''b '' =
     horizontalAdvance monospace_host ''b'' + horizontalAdvance monospace_host '' '' \<and>
   text_offsets (renderTags monospace_host (setTags new_widget [''a'', ''b'']) (QRect 3 0 100 20))
       ! Suc 0
     = text_offsets (renderTags monospace_host (setTags new_widget [''a'', ''b''])
           (QRect 3 0 100 20)) ! 0
         + horizontalAdvance monospace_host ''a'' + horizontalAdvance monospace_host '' ''"
proof -
  let ?w = "setTags new_widget [''a'', ''b'']"
  let ?r = "QRect 3 0 100 20"
  let ?t = "text_offsets (renderTags example_host ?w ?r)"
  let ?l = "line_offsets (renderTagBackgrounds example_host ?w ?r False)"
  let ?m = "text_offsets (renderTags monospace_host ?w ?r)"
  have g: "getTags ?w = [''a'', ''b'']" by (simp add: getTags_setTags maxLength_def)
  have adv: "horizontalAdvance example_host ''a '' = 15"
    by (simp add: example_host_def fractional_advance_def)
  have lr: "left ?r = 3" by (simp add: left_def QRect_def)
  from render_advance [of example_host ?w ?r False]
  have len: "length ?t = length (getTags ?w)" "length ?l = length (getTags ?w)"
    and first: "getTags ?w \<noteq> [] \<longrightarrow> ?t ! 0 = left ?r \<and> ?l ! 0 = left ?r"
    and step: "\<forall>i. Suc i < length (getTags ?w) \<longrightarrow>
      ?t ! Suc i = ?t ! i + horizontalAdvance example_host (getTags ?w ! i @ '' '') \<and>
      ?l ! Suc i = ?l ! i + horizontalAdvance example_host (getTags ?w ! i @ '' '')"
    by blast+
  from first g lr have f: "?t ! 0 = 3" "?l ! 0 = 3" by simp_all
  from step g have "?t ! Suc 0 = ?t ! 0 + horizontalAdvance example_host ''a ''"
    and "?l ! Suc 0 = ?l ! 0 + horizontalAdvance example_host ''a ''" by simp_all
  with f adv have s: "?t ! Suc 0 = 18" "?l ! Suc 0 = 18" by simp_all
  from len g have "length ?t = 2" "length ?l = 2" by simp_all
  with f s have tl: "?t = [3, 18]" "?l = [3, 18]"
    by (simp_all add: list_eq_iff_nth_eq less_Suc_eq numeral_2_eq_2)
  have ma: "horizontalAdvance monospace_host ''a '' =
      horizontalAdvance monospace_host ''a'' + horizontalAdvance monospace_host '' ''"
    and mb: "horizontalAdvance monospace_host ''b '' =
      horizontalAdvance monospace_host ''b'' + horizontalAdvance monospace_host '' ''"
    by (simp_all add: monospace_host_def monospace_advance_def)
  from ma mb g have additive: "\<forall>t \<in> set (getTags ?w).
      horizontalAdvance monospace_host (t @ '' '')
        = horizontalAdvance monospace_host t + horizontalAdvance monospace_host '' ''"
    by simp
  from render_advance [of monospace_host ?w ?r False]
  have "(\<forall>t \<in> set (getTags ?w).
      horizontalAdvance monospace_host (t @ '' '')
        = horizontalAdvance monospace_host t + horizontalAdvance monospace_host '' '') \<longrightarrow>
    (\<forall>i. Suc i < length (getTags ?w) \<longrightarrow>
      ?m ! Suc i = ?m ! i + horizontalAdvance monospace_host (getTags ?w ! i)
          + horizontalAdvance monospace_host '' '' \<and>
      line_offsets (renderTagBackgrounds monospace_host ?w ?r False) ! Suc i
        = line_offsets (renderTagBackgrounds monospace_host ?w ?r False) ! i
            + horizontalAdvance monospace_host (getTags ?w ! i)
            + horizontalAdvance monospace_host '' '')"
    by blast
  from this additive
  have "\<forall>i. Suc i < length (getTags ?w) \<longrightarrow>
      ?m ! Suc i = ?m ! i + horizontalAdvance monospace_host (getTags ?w ! i)
          + horizontalAdvance monospace_host '' '' \<and>
      line_offsets (renderTagBackgrounds monospace_host ?w ?r False) ! Suc i
        = line_offsets (renderTagBackgrounds monospace_host ?w ?r False) ! i
            + horizontalAdvance monospace_host (getTags ?w ! i)
            + horizontalAdvance monospace_host '' ''"
    by (rule mp)
  with g have mono: "?m ! Suc 0 = ?m ! 0 + horizontalAdvance monospace_host ''a''
      + horizontalAdvance monospace_host '' ''"
    by simp
  from g tl adv ma mb mono show ?thesis by (intro conjI)
qed

text \<open>
  C9 as stated fails when the measurement is not additive. With glyphs 7.4 pixels wide
  and advances rounded to whole pixels, \<open>a\<close> and the space measure 7 each and \<open>a\<close>
  followed by a space measures 15: the second tag is drawn at 18, not at 3 + 7 + 7.
\<close>

theorem render_advance_counterexample:
  "text_offsets (renderTags example_host (setTags new_widget [''a'', ''b'']) (QRect 3 0 100 20))
     = [3, 18] \<and>
   line_offsets (renderTagBackgrounds example_host (setTags new_widget [''a'', ''b''])
       (QRect 3 0 100 20) False) = [3, 18] \<and>
   3 + horizontalAdvance example_host ''a'' + horizontalAdvance example_host '' '' = 17 \<and>
   text_offsets (renderTags example_host (setTags new_widget [''a'', ''b'']) (QRect 3 0 100 20))
       ! Suc 0
     \<noteq> text_offsets (renderTags example_host (setTags new_widget [''a'', ''b''])
           (QRect 3 0 100 20)) ! 0
         + horizontalAdvance example_host ''a'' + horizontalAdvance example_host '' ''"
proof -
  let ?w = "setTags new_widget [''a'', ''b'']"
  have g: "getTags ?w = [''a'', ''b'']" by (simp add: getTags_setTags maxLength_def)
  have lr: "left (QRect 3 0 100 20) = 3" by (simp add: left_def QRect_def)
  have t: "text_offsets (renderTags example_host ?w (QRect 3 0 100 20))
      = advance_offsets (horizontalAdvance example_host) (left (QRect 3 0 100 20)) (getTags ?w)"
    by (simp only: renderTags_def text_offsets_renderTags_loop)
  have l: "line_offsets (renderTagBackgrounds example_host ?w (QRect 3 0 100 20) False)
      = advance_offsets (horizontalAdvance example_host) (left (QRect 3 0 100 20)) (getTags ?w)"
    by (simp only: renderTagBackgrounds_def line_offsets_renderTagBackgrounds_loop)
  show ?thesis
    unfolding t l g lr by (simp add: example_host_def fractional_advance_def)
qed

section \<open>The error of the brightness computation\<close>

lemma blend_to_white_eq:
  "blend_to_white c v = 255 - real_of_int (alpha c) / 255 * (255 - real_of_int v)"
  by (simp add: blend_to_white_def field_simps)

lemma fl_abs_error:
  assumes "ieee_rounding fl" "\<bar>x\<bar> \<le> 1000"
  shows "\<bar>fl x - x\<bar> \<le> 2 / 10 ^ 13"
proof -
  from assms(1) have "\<bar>fl x - x\<bar> \<le> \<bar>x\<bar> / 2 ^ 53" by (simp add: ieee_rounding_def)
  also from assms(2) have "\<bar>x\<bar> / 2 ^ 53 \<le> 1000 / 2 ^ 53" by (simp add: divide_right_mono)
  also have "(1000::real) / 2 ^ 53 \<le> 2 / 10 ^ 13" by simp
  finally show ?thesis .
qed

lemma fl_near:
  assumes "ieee_rounding fl" "\<bar>x - y\<bar> \<le> d" "\<bar>y\<bar> \<le> 600" "d \<le> 1"
  shows "\<bar>fl x - y\<bar> \<le> d + 2 / 10 ^ 13"
proof -
  from assms(2-4) have "\<bar>x\<bar> \<le> 1000" by linarith
  with assms(1) have "\<bar>fl x - x\<bar> \<le> 2 / 10 ^ 13" by (rule fl_abs_error)
  with assms(2) show ?thesis by linarith
qed

lemma sub_near:
  fixes x y k d :: real
  shows "\<bar>x - y\<bar> \<le> d \<Longrightarrow> \<bar>(k - x) - (k - y)\<bar> \<le> d"
  by linarith

lemma add_near:
  fixes x y a b :: real
  shows "\<bar>x - a\<bar> \<le> d1 \<Longrightarrow> \<bar>y - b\<bar> \<le> d2 \<Longrightarrow> \<bar>(x + y) - (a + b)\<bar> \<le> d1 + d2"
  by linarith

lemma mult_near:
  fixes x y a b :: real
  assumes "\<bar>x - a\<bar> \<le> da" "\<bar>y - b\<bar> \<le> db" "\<bar>a\<bar> \<le> A" "\<bar>b\<bar> \<le> B"
  shows "\<bar>x * y - a * b\<bar> \<le> (A + da) * db + B * da"
proof -
  have da: "0 \<le> da" and db: "0 \<le> db" using assms(1,2) by linarith+
  have A: "0 \<le> A" and B: "0 \<le> B" using assms(3,4) by linarith+
  have x: "\<bar>x\<bar> \<le> A + da" using assms(1,3) by linarith
  have "x * y - a * b = x * (y - b) + b * (x - a)" by (simp add: algebra_simps)
  then have "\<bar>x * y - a * b\<bar> \<le> \<bar>x * (y - b)\<bar> + \<bar>b * (x - a)\<bar>"
    using abs_triangle_ineq [of "x * (y - b)" "b * (x - a)"] by simp
  also have "\<dots> = \<bar>x\<bar> * \<bar>y - b\<bar> + \<bar>b\<bar> * \<bar>x - a\<bar>" by (simp add: abs_mult)
  also have "\<bar>x\<bar> * \<bar>y - b\<bar> + \<bar>b\<bar> * \<bar>x - a\<bar> \<le> (A + da) * db + B * da"
  proof (rule add_mono)
    show "\<bar>x\<bar> * \<bar>y - b\<bar> \<le> (A + da) * db"
      using x assms(2) A da by (intro mult_mono) auto
    show "\<bar>b\<bar> * \<bar>x - a\<bar> \<le> B * da"
      using assms(1,4) B by (intro mult_mono) auto
  qed
  finally show ?thesis .
qed

lemma blend_range:
  assumes "0 \<le> alpha c" "alpha c \<le> 255" "0 \<le> v" "v \<le> 255"
  shows "0 \<le> blend_to_white c v \<and> blend_to_white c v \<le> 255"
proof -
  let ?a = "real_of_int (alpha c) / 255" and ?d = "255 - real_of_int v"
  have a: "0 \<le> ?a" "?a \<le> 1" using assms(1,2) by simp_all
  have d: "0 \<le> ?d" "?d \<le> 255" using assms(3,4) by simp_all
  have "0 \<le> ?a * ?d" using a(1) d(1) by (rule mult_nonneg_nonneg)
  moreover have "?a * ?d \<le> 1 * 255" using a d by (intro mult_mono) auto
  ultimately show ?thesis unfolding blend_to_white_eq by linarith
qed

lemma scale_a_near:
  assumes fl: "ieee_rounding fl"
    and "0 \<le> alpha c" "alpha c \<le> 255" "0 \<le> v" "v \<le> 255"
  shows "\<bar>scale_a fl c v - blend_to_white c v\<bar> \<le> 1 / 10 ^ 10"
proof -
  let ?a = "real_of_int (alpha c) / 255" and ?d = "255 - real_of_int v"
  let ?e = "2 / 10 ^ 13 :: real"
  have a: "\<bar>?a\<bar> \<le> 1" using assms(2,3) by simp
  have d: "\<bar>?d\<bar> \<le> 255" using assms(4,5) by simp
  have q: "\<bar>fl ?a - ?a\<bar> \<le> ?e" using fl a by (intro fl_abs_error) auto
  have d': "\<bar>fl ?d - ?d\<bar> \<le> ?e" using fl d by (intro fl_abs_error) auto
  have "\<bar>fl ?a * fl ?d - ?a * ?d\<bar> \<le> (1 + ?e) * ?e + 255 * ?e"
    using q d' a d by (rule mult_near)
  then have m: "\<bar>fl ?a * fl ?d - ?a * ?d\<bar> \<le> 600 / 10 ^ 13" by simp
  have ad: "\<bar>?a * ?d\<bar> \<le> 1 * 255"
    unfolding abs_mult using a d by (intro mult_mono) auto
  have "\<bar>fl (fl ?a * fl ?d) - ?a * ?d\<bar> \<le> 600 / 10 ^ 13 + 2 / 10 ^ 13"
    using fl m by (rule fl_near) (use ad in auto)
  then have "\<bar>(255 - fl (fl ?a * fl ?d)) - (255 - ?a * ?d)\<bar> \<le> 600 / 10 ^ 13 + 2 / 10 ^ 13"
    by (rule sub_near)
  then have "\<bar>(255 - fl (fl ?a * fl ?d)) - (255 - ?a * ?d)\<bar> \<le> 602 / 10 ^ 13" by simp
  moreover have "\<bar>255 - ?a * ?d\<bar> \<le> 600" using ad by linarith
  ultimately have "\<bar>fl (255 - fl (fl ?a * fl ?d)) - (255 - ?a * ?d)\<bar> \<le> 602 / 10 ^ 13 + 2 / 10 ^ 13"
    using fl by (intro fl_near) auto
  then show ?thesis by (simp add: scale_a_def blend_to_white_eq)
qed

lemma weighted_term_near:
  assumes fl: "ieee_rounding fl"
    and s: "\<bar>s - b\<bar> \<le> 1 / 10 ^ 10" and b: "0 \<le> b" "b \<le> 255"
    and k: "0 \<le> k" "k \<le> 1"
  shows "\<bar>fl (s * fl k) - b * k\<bar> \<le> 2 / 10 ^ 10"
proof -
  have "\<bar>fl k - k\<bar> \<le> 2 / 10 ^ 13" using fl k by (intro fl_abs_error) auto
  moreover have "\<bar>b\<bar> \<le> 255" "\<bar>k\<bar> \<le> 1" using b k by auto
  ultimately have "\<bar>s * fl k - b * k\<bar> \<le> (255 + 1 / 10 ^ 10) * (2 / 10 ^ 13) + 1 * (1 / 10 ^ 10)"
    using s by (intro mult_near) auto
  then have p: "\<bar>s * fl k - b * k\<bar> \<le> 16 / 10 ^ 11" by simp
  have "0 \<le> b * k" using b(1) k(1) by (rule mult_nonneg_nonneg)
  moreover have "b * k \<le> 255 * 1" using b k by (intro mult_mono) auto
  ultimately have bk: "\<bar>b * k\<bar> \<le> 600" by linarith
  have "\<bar>fl (s * fl k) - b * k\<bar> \<le> 16 / 10 ^ 11 + 2 / 10 ^ 13"
    using fl p bk by (rule fl_near) simp
  then show ?thesis by simp
qed

lemma weighted_color_near:
  assumes fl: "ieee_rounding fl" and c: "valid_color c"
  shows "\<bar>weighted_color fl c - luma c\<bar> \<le> 1 / 10 ^ 9"
proof -
  let ?R = "blend_to_white c (red c)" and ?G = "blend_to_white c (green c)"
    and ?B = "blend_to_white c (blue c)"
  let ?r = "fl (scale_a fl c (red c) * fl (299 / 1000))"
  let ?g = "fl (scale_a fl c (green c) * fl (587 / 1000))"
  let ?b = "fl (scale_a fl c (blue c) * fl (114 / 1000))"
  from c have v: "0 \<le> alpha c" "alpha c \<le> 255" "0 \<le> red c" "red c \<le> 255"
    "0 \<le> green c" "green c \<le> 255" "0 \<le> blue c" "blue c \<le> 255"
    by (simp_all add: valid_color_def)
  have R: "0 \<le> ?R" "?R \<le> 255" using blend_range [of c "red c"] v by simp_all
  have G: "0 \<le> ?G" "?G \<le> 255" using blend_range [of c "green c"] v by simp_all
  have B: "0 \<le> ?B" "?B \<le> 255" using blend_range [of c "blue c"] v by simp_all
  have r: "\<bar>?r - ?R * (299 / 1000)\<bar> \<le> 2 / 10 ^ 10"
    using fl scale_a_near [OF fl v(1,2) v(3,4)] R by (rule weighted_term_near) simp_all
  have g: "\<bar>?g - ?G * (587 / 1000)\<bar> \<le> 2 / 10 ^ 10"
    using fl scale_a_near [OF fl v(1,2) v(5,6)] G by (rule weighted_term_near) simp_all
  have b: "\<bar>?b - ?B * (114 / 1000)\<bar> \<le> 2 / 10 ^ 10"
    using fl scale_a_near [OF fl v(1,2) v(7,8)] B by (rule weighted_term_near) simp_all
  have "\<bar>(?r + ?g) - (?R * (299 / 1000) + ?G * (587 / 1000))\<bar> \<le> 2 / 10 ^ 10 + 2 / 10 ^ 10"
    using r g by (rule add_near)
  then have rg: "\<bar>(?r + ?g) - (?R * (299 / 1000) + ?G * (587 / 1000))\<bar> \<le> 4 / 10 ^ 10"
    by simp
  have "\<bar>?R * (299 / 1000) + ?G * (587 / 1000)\<bar> \<le> 600" using R G by linarith
  with fl rg have rg': "\<bar>fl (?r + ?g) - (?R * (299 / 1000) + ?G * (587 / 1000))\<bar>
      \<le> 4 / 10 ^ 10 + 2 / 10 ^ 13"
    by (rule fl_near) simp
  have "\<bar>(fl (?r + ?g) + ?b) - (?R * (299 / 1000) + ?G * (587 / 1000) + ?B * (114 / 1000))\<bar>
      \<le> (4 / 10 ^ 10 + 2 / 10 ^ 13) + 2 / 10 ^ 10"
    using rg' b by (rule add_near)
  also have "(4 / 10 ^ 10 + 2 / 10 ^ 13) + 2 / 10 ^ 10 \<le> (7 / 10 ^ 10 :: real)" by simp
  finally have rgb: "\<bar>(fl (?r + ?g) + ?b) - (?R * (299 / 1000) + ?G * (587 / 1000) + ?B * (114 / 1000))\<bar>
      \<le> 7 / 10 ^ 10" .
  have "\<bar>?R * (299 / 1000) + ?G * (587 / 1000) + ?B * (114 / 1000)\<bar> \<le> 600"
    using R G B by linarith
  with fl rgb have "\<bar>fl (fl (?r + ?g) + ?b)
        - (?R * (299 / 1000) + ?G * (587 / 1000) + ?B * (114 / 1000))\<bar>
      \<le> 7 / 10 ^ 10 + 2 / 10 ^ 13"
    by (rule fl_near) simp
  then show ?thesis
    by (simp add: weighted_color_def kRgbBrightnessWeights_def luma_def mult.commute)
qed

lemma blend_monotone_alpha:
  assumes "0 \<le> alpha c" "alpha c \<le> 255" "0 \<le> v" "v \<le> 255"
  shows "255 - real_of_int (alpha c) \<le> blend_to_white c v"
proof -
  let ?a = "real_of_int (alpha c) / 255" and ?d = "255 - real_of_int v"
  have "?a * ?d \<le> ?a * 255" using assms by (intro mult_left_mono) auto
  then show ?thesis unfolding blend_to_white_eq by simp
qed

lemma luma_lower_alpha:
  assumes "valid_color c"
  shows "255 - real_of_int (alpha c) \<le> luma c"
proof -
  from assms have v: "0 \<le> alpha c" "alpha c \<le> 255" "0 \<le> red c" "red c \<le> 255"
    "0 \<le> green c" "green c \<le> 255" "0 \<le> blue c" "blue c \<le> 255"
    by (simp_all add: valid_color_def)
  have "255 - real_of_int (alpha c) \<le> blend_to_white c (red c)"
    "255 - real_of_int (alpha c) \<le> blend_to_white c (green c)"
    "255 - real_of_int (alpha c) \<le> blend_to_white c (blue c)"
    using v by (simp_all add: blend_monotone_alpha)
  then show ?thesis unfolding luma_def by linarith
qed

lemma luma_numerator: "luma c = real_of_int (luma_numerator c) / 255000"
  by (simp add: luma_def blend_to_white_eq luma_numerator_def field_simps)

lemma luma_above: "150 < luma c \<Longrightarrow> 150 + 1 / 255000 \<le> luma c"
proof -
  assume "150 < luma c"
  then have "real_of_int 38250000 < real_of_int (luma_numerator c)"
    by (simp add: luma_numerator)
  then have "38250000 < luma_numerator c" by (simp only: of_int_less_iff)
  then have "38250001 \<le> luma_numerator c" by simp
  then have "real_of_int 38250001 \<le> real_of_int (luma_numerator c)"
    by (simp only: of_int_le_iff)
  then show ?thesis by (simp add: luma_numerator)
qed

lemma luma_below: "luma c < 150 \<Longrightarrow> luma c \<le> 150 - 1 / 255000"
proof -
  assume "luma c < 150"
  then have "real_of_int (luma_numerator c) < real_of_int 38250000"
    by (simp add: luma_numerator)
  then have "luma_numerator c < 38250000" by (simp only: of_int_less_iff)
  then have "luma_numerator c \<le> 38249999" by simp
  then have "real_of_int (luma_numerator c) \<le> real_of_int 38249999"
    by (simp only: of_int_le_iff)
  then show ?thesis by (simp add: luma_numerator)
qed

lemma pen_dark:
  assumes "ieee_rounding fl" "valid_color c" "150 < luma c"
  shows "getPenForColor fl c = QPen kDarkColor"
proof -
  have "\<bar>weighted_color fl c - luma c\<bar> \<le> 1 / 10 ^ 9"
    using assms(1,2) by (rule weighted_color_near)
  moreover have "150 + 1 / 255000 \<le> luma c" using assms(3) by (rule luma_above)
  moreover have "(1 / 10 ^ 9 :: real) < 1 / 255000" by simp
  ultimately have "150 < weighted_color fl c" by linarith
  then show ?thesis by (simp add: getPenForColor_def kDarkColorTreshold_def)
qed

lemma pen_bright:
  assumes "ieee_rounding fl" "valid_color c" "luma c < 150"
  shows "getPenForColor fl c = QPen kBrightColor"
proof -
  have "\<bar>weighted_color fl c - luma c\<bar> \<le> 1 / 10 ^ 9"
    using assms(1,2) by (rule weighted_color_near)
  moreover have "luma c \<le> 150 - 1 / 255000" using assms(3) by (rule luma_below)
  moreover have "(1 / 10 ^ 9 :: real) < 1 / 255000" by simp
  ultimately have "\<not> 150 < weighted_color fl c" by linarith
  then show ?thesis by (simp add: getPenForColor_def kDarkColorTreshold_def)
qed

text \<open>Double precision rounds within the relative error the theorems ask for.\<close>

lemma binary64_scaled:
  assumes "2 ^ 52 \<le> \<bar>x\<bar> * 2 ^ n" "\<bar>x\<bar> * 2 ^ n < 2 ^ 53"
  shows "binary64 x = of_int (rne (x * 2 ^ n)) / 2 ^ n"
proof -
  have x: "x \<noteq> 0" using assms(1) by auto
  have p: "(2::real) powr (52 - real n) = 2 ^ 52 / 2 ^ n"
    by (simp add: powr_diff powr_realpow flip: powr_numeral)
  have q: "(2::real) powr (53 - real n) = 2 ^ 53 / 2 ^ n"
    by (simp add: powr_diff powr_realpow flip: powr_numeral)
  have "2 ^ 52 / 2 ^ n \<le> \<bar>x\<bar>" using assms(1) by (simp add: pos_divide_le_eq)
  then have "2 powr (52 - real n) \<le> \<bar>x\<bar>" by (simp only: p)
  moreover have "\<bar>x\<bar> < 2 ^ 53 / 2 ^ n" using assms(2) by (simp add: pos_less_divide_eq)
  then have "\<bar>x\<bar> < 2 powr (53 - real n)" by (simp only: q)
  then have "\<bar>x\<bar> < 2 powr (52 - real n + 1)" by (simp add: algebra_simps)
  ultimately have "\<lfloor>log 2 \<bar>x\<bar>\<rfloor> = 52 - int n"
    using x floor_log_eq_powr_iff [of "\<bar>x\<bar>" 2 "52 - int n"] by simp
  then have e: "\<lfloor>log 2 \<bar>x\<bar>\<rfloor> - 52 = - int n" by simp
  have "(2::real) powr of_int (- int n) = 1 / 2 ^ n"
    by (simp add: powr_minus_divide powr_realpow)
  then show ?thesis using x by (simp add: binary64_def e Let_def)
qed


lemma rne_near: "\<bar>of_int (rne y) - y\<bar> \<le> 1 / 2"
proof -
  have "of_int \<lfloor>y\<rfloor> \<le> y" "y < of_int \<lfloor>y\<rfloor> + 1" by linarith+
  then show ?thesis by (auto simp: rne_def Let_def)
qed

lemma ieee_rounding_binary64: "ieee_rounding binary64"
  unfolding ieee_rounding_def
proof
  fix x :: real
  show "\<bar>binary64 x - x\<bar> \<le> \<bar>x\<bar> / 2 ^ 53"
  proof (cases "x = 0")
    case True
    then show ?thesis by (simp add: binary64_def)
  next
    case False
    define k where "k = \<lfloor>log 2 \<bar>x\<bar>\<rfloor>"
    define s where "s = (2::real) powr of_int (k - 52)"
    have s: "0 < s" by (simp add: s_def)
    from False have "2 powr of_int k \<le> \<bar>x\<bar>"
      using floor_log_eq_powr_iff [of "\<bar>x\<bar>" 2 k] by (simp add: k_def)
    moreover have "(2::real) powr of_int k = s * 2 ^ 52"
      by (simp add: s_def powr_diff flip: powr_numeral)
    ultimately have x: "s * 2 ^ 52 \<le> \<bar>x\<bar>" by simp
    have b: "binary64 x = of_int (rne (x / s)) * s"
      using False by (simp add: binary64_def Let_def k_def s_def)
    have "binary64 x - x = (of_int (rne (x / s)) - x / s) * s"
      using s by (simp add: b algebra_simps)
    then have "\<bar>binary64 x - x\<bar> = \<bar>of_int (rne (x / s)) - x / s\<bar> * s"
      using s by (simp add: abs_mult)
    also have "\<dots> \<le> 1 / 2 * s"
      using rne_near [of "x / s"] s by (intro mult_right_mono) auto
    also have "1 / 2 * s = s * 2 ^ 52 / 2 ^ 53" by simp
    also have "\<dots> \<le> \<bar>x\<bar> / 2 ^ 53" using x by (intro divide_right_mono) auto
    finally show ?thesis .
  qed
qed

lemma binary64_1: "binary64 1 = 1"
  by (subst binary64_scaled [where n = 52]) (simp_all add: rne_def Let_def)

lemma binary64_236: "binary64 236 = 236"
  by (subst binary64_scaled [where n = 45]) (simp_all add: rne_def Let_def)

lemma binary64_34: "binary64 34 = 34"
  by (subst binary64_scaled [where n = 47]) (simp_all add: rne_def Let_def)

lemma binary64_127: "binary64 127 = 127"
  by (subst binary64_scaled [where n = 46]) (simp_all add: rne_def Let_def)

lemma binary64_19: "binary64 19 = 19"
  by (subst binary64_scaled [where n = 48]) (simp_all add: rne_def Let_def)

lemma binary64_221: "binary64 221 = 221"
  by (subst binary64_scaled [where n = 45]) (simp_all add: rne_def Let_def)

lemma binary64_128: "binary64 128 = 128"
  by (subst binary64_scaled [where n = 45]) (simp_all add: rne_def Let_def)

lemma binary64_w0: "binary64 (299 / 1000) = 5386305154335113 / 2 ^ 54"
  by (subst binary64_scaled [where n = 54]) (simp_all add: rne_def Let_def)

lemma binary64_w1: "binary64 (587 / 1000) = 2643612981266481 / 2 ^ 52"
  by (subst binary64_scaled [where n = 53]) (simp_all add: rne_def Let_def)

lemma binary64_w2: "binary64 (114 / 1000) = 8214565720323785 / 2 ^ 56"
  by (subst binary64_scaled [where n = 56]) (simp_all add: rne_def Let_def)

lemma binary64_p0: "binary64 (19 * (5386305154335113 / 2 ^ 54)) = 6396237370772947 / 2 ^ 50"
  by (subst binary64_scaled [where n = 50]) (simp_all add: rne_def Let_def)

lemma binary64_p1: "binary64 (221 * (2643612981266481 / 2 ^ 52)) = 4564363037967909 / 2 ^ 45"
  by (subst binary64_scaled [where n = 45]) (simp_all add: rne_def Let_def)

lemma binary64_p2: "binary64 (128 * (8214565720323785 / 2 ^ 56)) = 8214565720323785 / 2 ^ 49"
  by (subst binary64_scaled [where n = 49]) (simp_all add: rne_def Let_def)

lemma binary64_t:
  "binary64 (6396237370772947 / 2 ^ 50 + 4564363037967909 / 2 ^ 45) = 1191061363951141 / 2 ^ 43"
  by (subst binary64_scaled [where n = 45]) (simp_all add: rne_def Let_def)

lemma binary64_r:
  "binary64 (1191061363951141 / 2 ^ 43 + 8214565720323785 / 2 ^ 49) = 5277655813324801 / 2 ^ 45"
  by (subst binary64_scaled [where n = 45]) (simp_all add: rne_def Let_def)

lemma scale_a_opaque:
  "scale_a binary64 (rgb 19 221 128) 19 = 19"
  "scale_a binary64 (rgb 19 221 128) 221 = 221"
  "scale_a binary64 (rgb 19 221 128) 128 = 128"
  by (simp_all add: scale_a_def rgb_def binary64_1 binary64_236 binary64_34 binary64_127
      binary64_19 binary64_221 binary64_128)

lemma weights_binary64:
  "kRgbBrightnessWeights binary64 ! 0 = 5386305154335113 / 2 ^ 54"
  "kRgbBrightnessWeights binary64 ! 1 = 2643612981266481 / 2 ^ 52"
  "kRgbBrightnessWeights binary64 ! 2 = 8214565720323785 / 2 ^ 56"
  unfolding kRgbBrightnessWeights_def binary64_w0 binary64_w1 binary64_w2 by simp_all

lemma weighted_color_boundary:
  "weighted_color binary64 (rgb 19 221 128) = 5277655813324801 / 2 ^ 45"
proof -
  have c: "red (rgb 19 221 128) = 19" "green (rgb 19 221 128) = 221" "blue (rgb 19 221 128) = 128"
    by (simp_all add: rgb_def)
  show ?thesis
    unfolding weighted_color_def c scale_a_opaque weights_binary64
      binary64_p0 binary64_p1 binary64_p2 binary64_t binary64_r
    by (rule refl)
qed

text \<open>
  C8, as the code has it. For every colour with channels between 0 and 255 and every
  arithmetic that rounds as IEEE double precision does, the value \<open>getPenForColor\<close>
  computes, channel by channel \<open>255 - alpha / 255 * (255 - value)\<close> and then the sum
  weighted by 0.299, 0.587 and 0.114, lies within \<open>10\<^sup>-\<^sup>9\<close> of the exact brightness of
  the colour blended towards white in proportion to \<open>(255 - alpha) / 255\<close>. The pen is
  black when the computed value exceeds 150 and (245, 245, 245) otherwise. The exact
  brightness is a multiple of \<open>1 / 255000\<close>, so the pen is black when the exact brightness
  exceeds 150 and (245, 245, 245) when it is below 150; at exactly 150 the rounding
  decides. The function is a function of the colour (and the arithmetic) alone. Opaque
  (245, 245, 245) selects the black pen, opaque black and opaque (10, 10, 10) select the
  bright pen, and every colour, however dark, selects the black pen once its alpha is
  104 or less.
\<close>

theorem getPenForColor_spec:
  assumes "ieee_rounding fl" and "valid_color c"
  shows "\<bar>weighted_color fl c - luma c\<bar> \<le> 1 / 10 ^ 9 \<and>
    getPenForColor fl c
      = (if weighted_color fl c > 150 then QPen (rgb 0 0 0) else QPen (rgb 245 245 245)) \<and>
    (luma c > 150 \<longrightarrow> getPenForColor fl c = QPen (rgb 0 0 0)) \<and>
    (luma c < 150 \<longrightarrow> getPenForColor fl c = QPen (rgb 245 245 245)) \<and>
    getPenForColor fl (rgb 245 245 245) = QPen (rgb 0 0 0) \<and>
    getPenForColor fl (rgb 0 0 0) = QPen (rgb 245 245 245) \<and>
    getPenForColor fl (rgb 10 10 10) = QPen (rgb 245 245 245) \<and>
    (alpha c \<le> 104 \<longrightarrow> getPenForColor fl c = QPen (rgb 0 0 0))"
proof (intro conjI impI)
  show "\<bar>weighted_color fl c - luma c\<bar> \<le> 1 / 10 ^ 9"
    using assms by (rule weighted_color_near)
  show "getPenForColor fl c
      = (if weighted_color fl c > 150 then QPen (rgb 0 0 0) else QPen (rgb 245 245 245))"
    by (simp add: getPenForColor_def kDarkColorTreshold_def kDarkColor_def kBrightColor_def)
  show "getPenForColor fl c = QPen (rgb 0 0 0)" if "luma c > 150"
    using pen_dark [OF assms that] by (simp add: kDarkColor_def)
  show "getPenForColor fl c = QPen (rgb 245 245 245)" if "luma c < 150"
    using pen_bright [OF assms that] by (simp add: kBrightColor_def)
  have "valid_color (rgb 245 245 245)" "150 < luma (rgb 245 245 245)"
    by (simp_all add: valid_color_def rgb_def luma_def blend_to_white_def)
  with assms(1) show "getPenForColor fl (rgb 245 245 245) = QPen (rgb 0 0 0)"
    unfolding kDarkColor_def [symmetric] by (rule pen_dark)
  have "valid_color (rgb 0 0 0)" "luma (rgb 0 0 0) < 150"
    by (simp_all add: valid_color_def rgb_def luma_def blend_to_white_def)
  with assms(1) show "getPenForColor fl (rgb 0 0 0) = QPen (rgb 245 245 245)"
    unfolding kBrightColor_def [symmetric] by (rule pen_bright)
  have "valid_color (rgb 10 10 10)" "luma (rgb 10 10 10) < 150"
    by (simp_all add: valid_color_def rgb_def luma_def blend_to_white_def)
  with assms(1) show "getPenForColor fl (rgb 10 10 10) = QPen (rgb 245 245 245)"
    unfolding kBrightColor_def [symmetric] by (rule pen_bright)
  show "getPenForColor fl c = QPen (rgb 0 0 0)" if "alpha c \<le> 104"
  proof -
    from that have "real_of_int (alpha c) \<le> 104" by simp
    with luma_lower_alpha [OF assms(2)] have "150 < luma c" by linarith
    with assms show ?thesis unfolding kDarkColor_def [symmetric] by (rule pen_dark)
  qed
qed

theorem getPenForColor_spec_witness:
  "ieee_rounding binary64 \<and> valid_color kPropertyColor \<and>
   luma kPropertyColor = 1764819 / 8500 \<and>
   getPenForColor binary64 kPropertyColor = QPen (rgb 0 0 0) \<and>
   valid_color (rgb 245 245 245) \<and>
   getPenForColor binary64 (rgb 245 245 245) = QPen (rgb 0 0 0) \<and>
   getPenForColor binary64 (rgb 0 0 0) = QPen (rgb 245 245 245)"
proof -
  have v: "valid_color kPropertyColor" by (simp add: valid_color_def kPropertyColor_def)
  have v': "valid_color (rgb 245 245 245)" by (simp add: valid_color_def rgb_def)
  have l: "luma kPropertyColor = 1764819 / 8500"
    by (simp add: luma_def blend_to_white_def kPropertyColor_def)
  have a: "alpha kPropertyColor \<le> 104" by (simp add: kPropertyColor_def)
  from getPenForColor_spec [OF ieee_rounding_binary64 v] a
  have 1: "getPenForColor binary64 kPropertyColor = QPen (rgb 0 0 0)" by blast
  from getPenForColor_spec [OF ieee_rounding_binary64 v']
  have 2: "getPenForColor binary64 (rgb 245 245 245) = QPen (rgb 0 0 0)"
    and 3: "getPenForColor binary64 (rgb 0 0 0) = QPen (rgb 245 245 245)" by blast+
  from ieee_rounding_binary64 v l 1 v' 2 3 show ?thesis by (intro conjI)
qed

text \<open>
  C8 as stated fails where the exact brightness is exactly 150. Opaque (19, 221, 128) has
  the brightness 0.299 * 19 + 0.587 * 221 + 0.114 * 128 = 150, which does not exceed 150,
  so the pen would be (245, 245, 245); in double precision the weighted sum is
  \<open>150 + 2\<^sup>-\<^sup>4\<^sup>5\<close>, and the pen is black.
\<close>

theorem getPenForColor_boundary_counterexample:
  "ieee_rounding binary64 \<and> valid_color (rgb 19 221 128) \<and> luma (rgb 19 221 128) = 150 \<and>
   weighted_color binary64 (rgb 19 221 128) = 150 + 1 / 2 ^ 45 \<and>
   getPenForColor binary64 (rgb 19 221 128) = QPen (rgb 0 0 0) \<and>
   getPenForColor binary64 (rgb 19 221 128) \<noteq> QPen (rgb 245 245 245)"
proof -
  have w: "weighted_color binary64 (rgb 19 221 128) = 150 + 1 / 2 ^ 45"
    unfolding weighted_color_boundary by simp
  have v: "valid_color (rgb 19 221 128)" by (simp add: valid_color_def rgb_def)
  have l: "luma (rgb 19 221 128) = 150" by (simp add: luma_def blend_to_white_def rgb_def)
  have p: "getPenForColor binary64 (rgb 19 221 128) = QPen (rgb 0 0 0)"
    by (simp add: getPenForColor_def w kDarkColorTreshold_def kDarkColor_def)
  have n: "QPen (rgb 0 0 0) \<noteq> QPen (rgb 245 245 245)" by (simp add: QPen_def rgb_def)
  from ieee_rounding_binary64 v l w p n show ?thesis by simp
qed

section \<open>The shape of the text\<close>

lemma no_space_not_doubled: "CHR '' '' \<notin> set t \<Longrightarrow> \<not> doubled_space t"
  by (induction t rule: doubled_space.induct) auto

lemma plain_single_spaced: "plain t \<Longrightarrow> single_spaced t"
proof -
  assume p: "plain t"
  then have "hd t \<noteq> CHR '' ''" by (cases t) (auto simp: plain_def)
  moreover from p have "last t \<noteq> CHR '' ''" by (metis last_in_set plain_def)
  moreover from p have "\<not> doubled_space t" by (simp add: plain_def no_space_not_doubled)
  ultimately show ?thesis by (simp add: single_spaced_def)
qed

lemma not_doubled_append_space:
  "a \<noteq> [] \<Longrightarrow> \<not> doubled_space a \<Longrightarrow> last a \<noteq> CHR '' '' \<Longrightarrow>
   b \<noteq> [] \<Longrightarrow> \<not> doubled_space b \<Longrightarrow> hd b \<noteq> CHR '' '' \<Longrightarrow>
     \<not> doubled_space (a @ CHR '' '' # b)"
proof (induction a)
  case Nil
  then show ?case by simp
next
  case (Cons x a)
  note prems = Cons.prems and IH = Cons.IH
  show ?case
  proof (cases a)
    case Nil
    with prems show ?thesis by (cases b) auto
  next
    case (Cons y ys)
    with prems IH show ?thesis by auto
  qed
qed

lemma single_spaced_append_space:
  assumes "single_spaced a" "a \<noteq> []" "single_spaced b" "b \<noteq> []"
  shows "single_spaced (a @ CHR '' '' # b)"
proof -
  from assms have a: "hd a \<noteq> CHR '' ''" "last a \<noteq> CHR '' ''" "\<not> doubled_space a"
    and b: "hd b \<noteq> CHR '' ''" "last b \<noteq> CHR '' ''" "\<not> doubled_space b"
    by (simp_all add: single_spaced_def)
  have "\<not> doubled_space (a @ CHR '' '' # b)"
    using assms(2) a(3,2) assms(4) b(3,1) by (rule not_doubled_append_space)
  then show ?thesis using a b assms(2,4) by (simp add: single_spaced_def)
qed

lemma not_doubled_prefix: "\<not> doubled_space (a @ b) \<Longrightarrow> \<not> doubled_space a"
proof (induction a rule: doubled_space.induct)
  case (1 x y cs)
  then show ?case by simp
qed simp_all

lemma not_doubled_last:
  "\<not> doubled_space (a @ CHR '' '' # b) \<Longrightarrow> a \<noteq> [] \<Longrightarrow> last a \<noteq> CHR '' ''"
proof (induction a rule: doubled_space.induct)
  case (1 x y cs)
  then show ?case by simp
qed simp_all

lemma single_spaced_prefix:
  assumes "single_spaced (a @ CHR '' '' # b)"
  shows "single_spaced a"
proof (cases "a = []")
  case True
  then show ?thesis by (simp add: single_spaced_def)
next
  case False
  from assms have h: "hd (a @ CHR '' '' # b) \<noteq> CHR '' ''"
    and d: "\<not> doubled_space (a @ CHR '' '' # b)"
    by (simp_all add: single_spaced_def)
  from h False have "hd a \<noteq> CHR '' ''" by simp
  moreover from d have "\<not> doubled_space a" by (rule not_doubled_prefix)
  moreover from d False have "last a \<noteq> CHR '' ''" by (rule not_doubled_last)
  ultimately show ?thesis by (simp add: single_spaced_def)
qed

lemma single_spaced_join:
  "list_all (\<lambda>t. single_spaced t \<and> t \<noteq> []) ts \<Longrightarrow>
     single_spaced (join '' '' ts) \<and> (ts \<noteq> [] \<longrightarrow> join '' '' ts \<noteq> [])"
proof (induction "'' ''" ts rule: join.induct)
  case 1
  show ?case by (simp add: single_spaced_def)
next
  case (2 x)
  then show ?case by simp
next
  case (3 x y ys)
  then have "single_spaced (join '' '' (y # ys))" "join '' '' (y # ys) \<noteq> []"
    and "single_spaced x" "x \<noteq> []" by simp_all
  then show ?case by (simp add: single_spaced_append_space)
qed

lemma single_spaced_values:
  "single_spaced n \<Longrightarrow> n \<noteq> [] \<Longrightarrow> list_all plain vs \<Longrightarrow>
     single_spaced (n @ concat (map ((#) CHR '' '') vs))"
proof (induction vs arbitrary: n)
  case Nil
  then show ?case by simp
next
  case (Cons v vs)
  from Cons.prems have v: "single_spaced v" "v \<noteq> []"
    by (simp_all add: plain_single_spaced) (simp add: plain_def)
  with Cons.prems have "single_spaced (n @ CHR '' '' # v)"
    by (simp add: single_spaced_append_space)
  moreover have "n @ CHR '' '' # v \<noteq> []" by simp
  moreover from Cons.prems have "list_all plain vs" by simp
  ultimately have "single_spaced ((n @ CHR '' '' # v) @ concat (map ((#) CHR '' '') vs))"
    by (rule Cons.IH)
  then show ?case by simp
qed

lemma plain_values:
  "c \<noteq> CHR '' '' \<Longrightarrow> CHR '' '' \<notin> set n \<Longrightarrow> list_all plain vs \<Longrightarrow>
     CHR '' '' \<notin> set (n @ concat (map ((#) c) vs))"
  by (induction vs arbitrary: n) (auto simp: plain_def)

lemma property_tag_single_spaced:
  assumes "plain_property p"
  shows "single_spaced (property_tag sep p) \<and> property_tag sep p \<noteq> []"
proof (cases sep)
  case None
  with assms show ?thesis
    by (simp add: property_tag_None plain_property_def plain_single_spaced) (simp add: plain_def)
next
  case (Some c)
  from assms have n: "plain (p_name p)" and vs: "list_all plain (p_values p)"
    by (simp_all add: plain_property_def)
  from n have ne: "p_name p \<noteq> []" by (simp add: plain_def)
  have "single_spaced (p_name p @ concat (map ((#) c) (p_values p)))"
  proof (cases "c = CHR '' ''")
    case True
    with n ne vs show ?thesis by (simp add: single_spaced_values plain_single_spaced)
  next
    case False
    with n vs have "CHR '' '' \<notin> set (p_name p @ concat (map ((#) c) (p_values p)))"
      by (intro plain_values) (simp_all add: plain_def)
    with ne show ?thesis by (intro plain_single_spaced) (simp add: plain_def)
  qed
  with Some ne show ?thesis by (simp add: property_tag_Some spec_token_def)
qed

lemma setTags_single_spaced:
  "list_all plain tags \<Longrightarrow> length (join '' '' tags) \<le> maxLength \<Longrightarrow>
     single_spaced (qtext (setTags w tags))"
proof -
  assume "list_all plain tags" and l: "length (join '' '' tags) \<le> maxLength"
  then have "list_all (\<lambda>t. single_spaced t \<and> t \<noteq> []) tags"
    by (auto simp: list_all_iff plain_single_spaced plain_def)
  then show ?thesis using single_spaced_join [of tags] l by (simp add: setTags_fits)
qed

lemma getTags_plain: "list_all plain (getTags w)"
  using getTags_tokens [of _ w] by (auto simp: list_all_iff plain_def)

lemma collapse_runs_plain: "list_all plain ts \<Longrightarrow> list_all plain (collapse_runs key ts)"
  using collapse_runs_subset [of key ts] by (auto simp: list_all_iff)

lemma setTags_collapse_single_spaced:
  assumes "length (qtext w) \<le> maxLength"
  shows "single_spaced (qtext (setTags w (collapse_runs key (getTags w))))"
proof (rule setTags_single_spaced)
  show "list_all plain (collapse_runs key (getTags w))"
    by (simp add: collapse_runs_plain getTags_plain)
  show "length (join '' '' (collapse_runs key (getTags w))) \<le> maxLength"
    using length_join_collapse [of key w] assms by simp
qed

text \<open>
  The operations keep a text without leading, trailing or doubled spaces in this shape
  when their arguments are plain and the new text fits the line edit; \<open>addProperty\<close>
  needs a text that is not empty as well.
\<close>

lemma single_spaced_preserved:
  assumes "single_spaced (qtext w)" and "length (qtext w) \<le> maxLength"
  shows "list_all plain tags \<and> length (join '' '' tags) \<le> maxLength \<longrightarrow>
      single_spaced (qtext (setTags w tags))"
    and "plain tag \<and> length (qtext w) + length tag < maxLength \<longrightarrow>
      single_spaced (qtext (addTag w tag))"
    and "single_spaced (qtext (removeLastTag w))"
    and "list_all plain_property ps \<and>
      length (join '' '' (map (property_tag (separator w)) ps)) \<le> maxLength \<longrightarrow>
      single_spaced (qtext (setProperties w ps))"
    and "single_spaced (qtext (makeTagsUnique w))"
    and "plain_property p \<and> qtext w \<noteq> [] \<and>
      length (qtext w) + length (property_tag (separator w) p) < maxLength \<longrightarrow>
      single_spaced (qtext (addProperty w p))"
proof -
  show "list_all plain tags \<and> length (join '' '' tags) \<le> maxLength \<longrightarrow>
      single_spaced (qtext (setTags w tags))"
    by (simp add: setTags_single_spaced)
  show "plain tag \<and> length (qtext w) + length tag < maxLength \<longrightarrow>
      single_spaced (qtext (addTag w tag))"
  proof
    assume t: "plain tag \<and> length (qtext w) + length tag < maxLength"
    then have "single_spaced tag" "tag \<noteq> []"
      by (simp_all add: plain_single_spaced) (simp add: plain_def)
    moreover from t have "length tag \<le> maxLength"
      and "length (qtext w @ '' '' @ tag) \<le> maxLength" by simp_all
    ultimately show "single_spaced (qtext (addTag w tag))"
      using assms(1) by (simp add: addTag_def setText_fits single_spaced_append_space)
  qed
  show "single_spaced (qtext (removeLastTag w))"
  proof (cases "CHR '' '' \<in> set (qtext w)")
    case False
    then show ?thesis by (simp add: removeLastTag_no_space single_spaced_def)
  next
    case True
    then obtain pre suf where s: "qtext w = pre @ CHR '' '' # suf" "CHR '' '' \<notin> set suf"
      by (auto dest: split_list_last)
    with assms(2) have "length pre \<le> maxLength" by simp
    with s have "removeLastTag (w\<lparr>qtext := pre @ CHR '' '' # suf\<rparr>) = w\<lparr>qtext := pre\<rparr>"
      by (simp add: removeLastTag_space)
    moreover have "w\<lparr>qtext := pre @ CHR '' '' # suf\<rparr> = w" using s(1) by simp
    ultimately have "qtext (removeLastTag w) = pre" by simp
    moreover from assms(1) s(1) have "single_spaced pre" by (simp add: single_spaced_prefix)
    ultimately show ?thesis by simp
  qed
  show "list_all plain_property ps \<and>
      length (join '' '' (map (property_tag (separator w)) ps)) \<le> maxLength \<longrightarrow>
      single_spaced (qtext (setProperties w ps))"
  proof
    assume a: "list_all plain_property ps \<and>
      length (join '' '' (map (property_tag (separator w)) ps)) \<le> maxLength"
    then have "list_all (\<lambda>t. single_spaced t \<and> t \<noteq> []) (map (property_tag (separator w)) ps)"
      by (auto simp: list_all_iff property_tag_single_spaced)
    then show "single_spaced (qtext (setProperties w ps))"
      using single_spaced_join [of "map (property_tag (separator w)) ps"] a
      by (simp add: setProperties_tags setTags_fits)
  qed
  show "single_spaced (qtext (makeTagsUnique w))"
  proof (cases "unique_tags w")
    case False
    with assms(1) show ?thesis by (simp add: makeTagsUnique_def)
  next
    case True
    show ?thesis
    proof (cases "separator w")
      case None
      with True assms(2) show ?thesis
        by (simp add: makeTagsUnique_None setTags_collapse_single_spaced)
    next
      case (Some sep)
      with True assms(2) show ?thesis
        by (simp add: makeTagsUnique_Some setTags_collapse_single_spaced)
    qed
  qed
  show "plain_property p \<and> qtext w \<noteq> [] \<and>
      length (qtext w) + length (property_tag (separator w) p) < maxLength \<longrightarrow>
      single_spaced (qtext (addProperty w p))"
  proof
    assume a: "plain_property p \<and> qtext w \<noteq> [] \<and>
      length (qtext w) + length (property_tag (separator w) p) < maxLength"
    then have "single_spaced (property_tag (separator w) p)" "property_tag (separator w) p \<noteq> []"
      by (simp_all add: property_tag_single_spaced)
    moreover from a
    have "length (qtext w @ '' '' @ property_tag (separator w) p) \<le> maxLength" by simp
    ultimately show "single_spaced (qtext (addProperty w p))"
      using assms(1) a by (simp add: addProperty_def setText_fits single_spaced_append_space)
  qed
qed

text \<open>
  C6. The text stays without leading, trailing or doubled spaces under \<open>setTags\<close>,
  \<open>addTag\<close>, \<open>removeLastTag\<close>, \<open>setProperties\<close> and \<open>makeTagsUnique\<close> with plain
  arguments, and under \<open>addProperty\<close> when the text is not empty, as long as the new
  text fits the line edit (lemma \<open>single_spaced_preserved\<close>). \<open>addProperty\<close> on an empty
  text breaks it: a freshly constructed widget with separator \<open>=\<close> has a well-formed
  (empty) text, the property \<open>{a, [1]}\<close> is plain, and \<open>addProperty\<close> leaves the text
  \<open> a=1\<close> with a leading space, where \<open>addTag\<close> with the same token leaves \<open>a=1\<close>.
\<close>

theorem addProperty_empty_buffer:
  "single_spaced (qtext (setPropertySeparator new_widget CHR ''='')) \<and>
   plain_property \<lparr>p_name = ''a'', p_values = [''1'']\<rparr> \<and>
   qtext (addProperty (setPropertySeparator new_widget CHR ''='')
            \<lparr>p_name = ''a'', p_values = [''1'']\<rparr>) = '' a=1'' \<and>
   \<not> single_spaced (qtext (addProperty (setPropertySeparator new_widget CHR ''='')
            \<lparr>p_name = ''a'', p_values = [''1'']\<rparr>)) \<and>
   qtext (addTag (setPropertySeparator new_widget CHR ''='') ''a=1'') = ''a=1''"
  by (simp add: addProperty_def addTag_def setText_def maxLength_def setPropertySeparator_def
      new_widget_def property_tag_def single_spaced_def plain_property_def plain_def)

end
